theory Spec2Isabelle
  imports Complex_Main "HOL-Library.Word" "HOL-Library.AList"
begin

section \<open>Data model\<close>

text \<open>
  The fingerprint processor works on OpenCV matrices. A matrix is modelled by its
  dimensions, its channel count and its element accessor; \<open>mat_at m r c\<close> is
  \<open>m.at<T>(r, c)\<close>, rows first. Pixels of decoded images are bytes; the
  \<open>float\<close> and \<open>double\<close> values of the source are modelled as real numbers,
  \<open>int\<close> as unbounded integers, and the \<open>size_t\<close> byte counters of the image
  cache as 64-bit words.
\<close>

type_synonym uint8 = "8 word"
type_synonym size_t = "64 word"

record 'a Mat =
  rows :: int
  cols :: int
  channels :: int
  mat_at :: "int \<Rightarrow> int \<Rightarrow> 'a"

text \<open>\<open>cv::Mat::empty()\<close>: no element.\<close>

definition empty :: "'a Mat \<Rightarrow> bool" where
  "empty m = (rows m * cols m = 0)"

text \<open>\<open>CorePointDetector::CorePoint\<close>; the fields \<open>x\<close>, \<open>y\<close> are \<open>cp_x\<close>, \<open>cp_y\<close>.\<close>

record CorePoint =
  cp_x :: real
  cp_y :: real
  confidence :: real

definition CorePoint0 :: CorePoint where
  "CorePoint0 = \<lparr>cp_x = 0, cp_y = 0, confidence = 0\<rparr>"

text \<open>\<open>CorePointDetector::ROI\<close>: \<open>pixels\<close> is the array \<open>uint8_t[101][101]\<close>, a list of rows.\<close>

record ROI =
  pixels :: "uint8 list list"
  filename :: string
  file_index :: int

definition ROI0 :: ROI where
  "ROI0 = \<lparr>pixels = replicate 101 (replicate 101 0), filename = '''', file_index = - 1\<rparr>"

text \<open>\<open>static_cast<int>\<close> of a \<open>float\<close>: truncation towards zero.\<close>

definition static_cast_int :: "real \<Rightarrow> int" where
  "static_cast_int r = (if 0 \<le> r then \<lfloor>r\<rfloor> else \<lceil>r\<rceil>)"

section \<open>OpenCV primitives\<close>

text \<open>
  The detector composes primitives of OpenCV. Those with a simple mathematical meaning
  are defined here as OpenCV documents them, in exact arithmetic: the mean and standard
  deviation of a matrix, a sub-matrix, and the Laplacian of aperture 1 with the default
  border. The smoothing, normalising, equalising and gradient operators are parameters
  of the model (record \<open>library\<close> below).
\<close>

definition u8 :: "uint8 \<Rightarrow> real" where
  "u8 v = real (unat v)"

definition mat_sum :: "('a \<Rightarrow> real) \<Rightarrow> 'a Mat \<Rightarrow> real" where
  "mat_sum f m = (\<Sum>r\<leftarrow>[0..<nat (rows m)]. \<Sum>c\<leftarrow>[0..<nat (cols m)]. f (mat_at m (int r) (int c)))"

text \<open>
  \<open>cv::meanStdDev\<close>, first channel: the mean, and the square root of the mean of the
  squares minus the square of the mean, for a matrix that is not empty.
\<close>

definition meanStdDev :: "('a \<Rightarrow> real) \<Rightarrow> 'a Mat \<Rightarrow> real \<times> real" where
  "meanStdDev val m =
     (let n = real_of_int (rows m * cols m)
      in if n = 0 then (0, 0)
         else let mean = mat_sum val m / n;
                  sqmean = mat_sum (\<lambda>v. val v * val v) m / n
              in (mean, sqrt (max (sqmean - mean * mean) 0)))"

text \<open>
  OpenCV 4 (the project requires 4.5 or later) begins \<open>cv::meanStdDev\<close> with
  \<open>CV_Assert(!_src.empty())\<close>: an empty matrix raises the exception. The source applies
  it to a checked image, to the preprocessed image (which has the size of the checked
  input), to the 21 x 21 window and to the 101 x 101 ROI, where the model uses
  \<open>meanStdDev\<close>; the blocks of \<open>compute_ridge_frequency\<close> are empty when the block size
  is 0, and there the model uses the checked form.
\<close>

definition meanStdDev_assertion :: string where
  "meanStdDev_assertion = ''(-215:Assertion failed) !_src.empty()''"

definition cv_meanStdDev :: "('a \<Rightarrow> real) \<Rightarrow> 'a Mat \<Rightarrow> string + real \<times> real" where
  "cv_meanStdDev val m = (if empty m then Inl meanStdDev_assertion else Inr (meanStdDev val m))"

record Rect =
  rect_x :: int
  rect_y :: int
  rect_width :: int
  rect_height :: int

text \<open>The text of the exception of \<open>cv::Mat::operator()(const Rect&)\<close>, abridged.\<close>

definition roi_assertion :: string where
  "roi_assertion = ''(-215:Assertion failed) 0 <= roi.x && 0 <= roi.width && roi.x + roi.width <= m.cols && 0 <= roi.y && 0 <= roi.height && roi.y + roi.height <= m.rows''"

text \<open>\<open>image(roi)\<close>: the sub-matrix, or the exception when the rectangle leaves the matrix.\<close>

definition Mat_roi :: "'a Mat \<Rightarrow> Rect \<Rightarrow> string + 'a Mat" where
  "Mat_roi m r =
     (if 0 \<le> rect_x r \<and> 0 \<le> rect_width r \<and> rect_x r + rect_width r \<le> cols m \<and>
         0 \<le> rect_y r \<and> 0 \<le> rect_height r \<and> rect_y r + rect_height r \<le> rows m
      then Inr \<lparr>rows = rect_height r, cols = rect_width r, channels = channels m,
                mat_at = (\<lambda>y x. mat_at m (rect_y r + y) (rect_x r + x))\<rparr>
      else Inl roi_assertion)"

text \<open>\<open>cv::borderInterpolate\<close> with \<open>BORDER_REFLECT_101\<close>, for positions one step outside.\<close>

definition borderInterpolate :: "int \<Rightarrow> int \<Rightarrow> int" where
  "borderInterpolate q len =
     (if 0 \<le> q \<and> q < len then q
      else if len = 1 then 0
      else if q < 0 then - q
      else 2 * len - 2 - q)"

text \<open>
  \<open>cv::Laplacian(src, dst, CV_64F)\<close>: aperture 1, the kernel with \<open>-4\<close> in the middle
  and \<open>1\<close> at its four neighbours, border \<open>BORDER_REFLECT_101\<close>.
\<close>

definition Laplacian :: "('a \<Rightarrow> real) \<Rightarrow> 'a Mat \<Rightarrow> real Mat" where
  "Laplacian val m =
     \<lparr>rows = rows m, cols = cols m, channels = channels m,
      mat_at = (\<lambda>y x.
        let s = (\<lambda>r c. val (mat_at m (borderInterpolate r (rows m)) (borderInterpolate c (cols m))))
        in s (y - 1) x + s (y + 1) x + s y (x - 1) + s y (x + 1) - 4 * s y x)\<rparr>"

text \<open>\<open>std::atan2\<close>.\<close>

definition atan2 :: "real \<Rightarrow> real \<Rightarrow> real" where
  "atan2 b a =
     (if 0 < a then arctan (b / a)
      else if a < 0 then (if 0 \<le> b then arctan (b / a) + pi else arctan (b / a) - pi)
      else if 0 < b then pi / 2
      else if b < 0 then - (pi / 2)
      else 0)"

text \<open>The macro \<open>M_PI\<close>: the \<open>double\<close> nearest to \<open>\<pi>\<close>.\<close>

definition M_PI :: real where
  "M_PI = 884279719003555 / 281474976710656"

text \<open>Division of \<open>int\<close> in C++ truncates towards zero.\<close>

definition c_div :: "int \<Rightarrow> int \<Rightarrow> int" where
  "c_div a b = sgn a * sgn b * (\<bar>a\<bar> div \<bar>b\<bar>)"

text \<open>
  The operators taken as parameters. Each returns its result, or the text of the
  \<open>cv::Exception\<close> it throws. \<open>to_string\<close> is \<open>std::to_string(float)\<close>.
\<close>

record library =
  GaussianBlur :: "uint8 Mat \<Rightarrow> int \<Rightarrow> real \<Rightarrow> string + uint8 Mat"
  normalize :: "uint8 Mat \<Rightarrow> real \<Rightarrow> real \<Rightarrow> string + uint8 Mat"
  equalizeHist :: "uint8 Mat \<Rightarrow> string + uint8 Mat"
  Sobel :: "uint8 Mat \<Rightarrow> int \<Rightarrow> int \<Rightarrow> int \<Rightarrow> string + real Mat"
  to_string :: "real \<Rightarrow> string"

section \<open>CorePointDetector\<close>

record DetectionParams =
  min_confidence :: real
  gaussian_kernel_size :: int
  gaussian_sigma :: real
  sobel_kernel_size :: int
  block_size :: int
  ridge_threshold :: real
  use_simd :: bool

definition DetectionParams0 :: DetectionParams where
  "DetectionParams0 =
     \<lparr>min_confidence = 3 / 10, gaussian_kernel_size = 5, gaussian_sigma = 1,
      sobel_kernel_size = 3, block_size = 16, ridge_threshold = 1 / 2, use_simd = True\<rparr>"

record DetectionResult =
  core_points :: "CorePoint list"
  extracted_roi :: ROI
  overall_quality :: real
  processing_time_us :: nat
  error_message :: string
  success :: bool

definition DetectionResult0 :: DetectionResult where
  "DetectionResult0 =
     \<lparr>core_points = [], extracted_roi = ROI0, overall_quality = 0, processing_time_us = 0,
      error_message = '''', success = False\<rparr>"

text \<open>The counters are \<open>size_t\<close>; they count images, so they are natural numbers here.\<close>

record ProcessingStats =
  total_images_processed :: nat
  successful_detections :: nat
  failed_detections :: nat
  average_processing_time_us :: real
  average_confidence :: real
  simd_operations_used :: nat

definition ProcessingStats0 :: ProcessingStats where
  "ProcessingStats0 =
     \<lparr>total_images_processed = 0, successful_detections = 0, failed_detections = 0,
      average_processing_time_us = 0, average_confidence = 0, simd_operations_used = 0\<rparr>"

text \<open>
  \<open>check_simd_support\<close>: decided at compile time by the macro \<open>__AVX2__\<close>, the parameter
  \<open>avx2\<close> of the model.
\<close>

definition check_simd_support :: "bool \<Rightarrow> bool" where
  "check_simd_support avx2 = avx2"

text \<open>The constructor: the parameters as the detector stores them.\<close>

definition CorePointDetector :: "bool \<Rightarrow> DetectionParams \<Rightarrow> DetectionParams" where
  "CorePointDetector avx2 detection_params =
     (let p1 = (if gaussian_kernel_size detection_params mod 2 = 0
                then detection_params\<lparr>gaussian_kernel_size := gaussian_kernel_size detection_params + 1\<rparr>
                else detection_params);
          p2 = (if sobel_kernel_size p1 mod 2 = 0
                then p1\<lparr>sobel_kernel_size := sobel_kernel_size p1 + 1\<rparr> else p1);
          p3 = (if use_simd p2 \<and> \<not> check_simd_support avx2 then p2\<lparr>use_simd := False\<rparr> else p2)
      in p3)"

definition preprocess_image :: "library \<Rightarrow> DetectionParams \<Rightarrow> uint8 Mat \<Rightarrow> string + uint8 Mat" where
  "preprocess_image lib p input =
     (case GaussianBlur lib input (gaussian_kernel_size p) (gaussian_sigma p) of
        Inl e \<Rightarrow> Inl e
      | Inr processed1 \<Rightarrow>
          (case normalize lib processed1 0 255 of
             Inl e \<Rightarrow> Inl e
           | Inr processed2 \<Rightarrow> equalizeHist lib processed2))"

definition compute_gradients_scalar ::
  "library \<Rightarrow> DetectionParams \<Rightarrow> uint8 Mat \<Rightarrow> string + (real Mat \<times> real Mat)" where
  "compute_gradients_scalar lib p img =
     (case Sobel lib img 1 0 (sobel_kernel_size p) of
        Inl e \<Rightarrow> Inl e
      | Inr grad_x \<Rightarrow>
          (case Sobel lib img 0 1 (sobel_kernel_size p) of
             Inl e \<Rightarrow> Inl e
           | Inr grad_y \<Rightarrow> Inr (grad_x, grad_y)))"

definition compute_gradients_simd ::
  "library \<Rightarrow> bool \<Rightarrow> DetectionParams \<Rightarrow> ProcessingStats \<Rightarrow> uint8 Mat \<Rightarrow>
     string + ((real Mat \<times> real Mat) \<times> ProcessingStats)" where
  "compute_gradients_simd lib avx2 p stats img =
     (if avx2 then
        (case Sobel lib img 1 0 (sobel_kernel_size p) of
           Inl e \<Rightarrow> Inl e
         | Inr grad_x \<Rightarrow>
             (case Sobel lib img 0 1 (sobel_kernel_size p) of
                Inl e \<Rightarrow> Inl e
              | Inr grad_y \<Rightarrow>
                  Inr ((grad_x, grad_y),
                       stats\<lparr>simd_operations_used := simd_operations_used stats + 1\<rparr>)))
      else
        (case compute_gradients_scalar lib p img of
           Inl e \<Rightarrow> Inl e
         | Inr g \<Rightarrow> Inr (g, stats)))"

definition compute_orientation_field ::
  "library \<Rightarrow> bool \<Rightarrow> DetectionParams \<Rightarrow> ProcessingStats \<Rightarrow> uint8 Mat \<Rightarrow>
     string + (real Mat \<times> ProcessingStats)" where
  "compute_orientation_field lib avx2 p stats img =
     (case (if use_simd p \<and> check_simd_support avx2
            then compute_gradients_simd lib avx2 p stats img
            else (case compute_gradients_scalar lib p img of
                    Inl e \<Rightarrow> Inl e
                  | Inr g \<Rightarrow> Inr (g, stats))) of
        Inl e \<Rightarrow> Inl e
      | Inr ((grad_x, grad_y), stats') \<Rightarrow>
          Inr (\<lparr>rows = rows img, cols = cols img, channels = 1,
                mat_at = (\<lambda>y x.
                  let gx = mat_at grad_x y x;
                      gy = mat_at grad_y y x
                  in atan2 (2 * gx * gy) (gx * gx - gy * gy) * 0.5)\<rparr>,
               stats'))"

text \<open>
  \<open>compute_ridge_frequency\<close>: the zeroed matrix, then for every interior position the
  standard deviation of the block around it; the loops stop at the first exception.
\<close>

definition compute_ridge_frequency :: "DetectionParams \<Rightarrow> uint8 Mat \<Rightarrow> string + real Mat" where
  "compute_ridge_frequency p img =
     (let window_size = block_size p;
          half_window = c_div window_size 2
      in case fold (\<lambda>y acc. fold (\<lambda>x acc.
                 case acc of
                   Inl e \<Rightarrow> Inl e
                 | Inr frequency \<Rightarrow>
                     (case Mat_roi img \<lparr>rect_x = x - half_window, rect_y = y - half_window,
                                        rect_width = window_size, rect_height = window_size\<rparr> of
                        Inl e \<Rightarrow> Inl e
                      | Inr block \<Rightarrow>
                          (case cv_meanStdDev u8 block of
                             Inl e \<Rightarrow> Inl e
                           | Inr mean_stddev \<Rightarrow>
                               Inr (frequency(y := (frequency y)(x := snd mean_stddev / 255))))))
                 [half_window..cols img - half_window - 1] acc)
               [half_window..rows img - half_window - 1] (Inr (\<lambda>_ _. 0)) of
           Inl e \<Rightarrow> Inl e
         | Inr frequency \<Rightarrow>
             Inr \<lparr>rows = rows img, cols = cols img, channels = 1, mat_at = frequency\<rparr>)"

section \<open>ROI extraction\<close>

text \<open>
  The boundary handling of \<open>extract_roi_around_point\<close>, the two tests applied to one
  coordinate in the order of the source.
\<close>

definition clamp_coord :: "int \<Rightarrow> int \<Rightarrow> int" where
  "clamp_coord v len =
     (let v1 = (if v < 0 then 0 else v);
          v2 = (if v1 \<ge> len then len - 1 else v1)
      in v2)"

text \<open>
  The two nested loops of \<open>extract_roi_around_point\<close>: the inner one assigns
  \<open>roi.pixels[y][x]\<close> for \<open>x = 0 .. 100\<close>, the outer one runs it for \<open>y = 0 .. 100\<close>,
  starting from the zeroed array of the \<open>ROI\<close> constructor.
\<close>

definition roi_row_loop :: "uint8 Mat \<Rightarrow> int \<Rightarrow> int \<Rightarrow> nat \<Rightarrow> uint8 list \<Rightarrow> uint8 list" where
  "roi_row_loop img center_x center_y y row =
     fold (\<lambda>x r.
        let img_x = clamp_coord (center_x - 50 + int x) (cols img);
            img_y = clamp_coord (center_y - 50 + int y) (rows img)
        in r[x := mat_at img img_y img_x]) [0..<101] row"

definition extract_roi_around_point :: "uint8 Mat \<Rightarrow> CorePoint \<Rightarrow> string \<Rightarrow> int \<Rightarrow> ROI" where
  "extract_roi_around_point img core_point fname idx =
     (let roi = ROI0\<lparr>filename := fname, file_index := idx\<rparr>;
          center_x = static_cast_int (cp_x core_point);
          center_y = static_cast_int (cp_y core_point)
      in roi\<lparr>pixels :=
           fold (\<lambda>y ps. ps[y := roi_row_loop img center_x center_y y (ps ! y)]) [0..<101] (pixels roi)\<rparr>)"

section \<open>Candidate search, validation and quality\<close>

text \<open>
  One sample of the inner loops of \<open>detect_core_candidates\<close>: the squared circular
  distance of the orientation at \<open>(y + dy, x + dx)\<close> from the orientation at the centre
  is added to the accumulator, when the position is inside the field.
\<close>

definition sample_orientation ::
  "real Mat \<Rightarrow> real \<Rightarrow> int \<Rightarrow> int \<Rightarrow> int \<Rightarrow> int \<Rightarrow> real \<times> int \<Rightarrow> real \<times> int" where
  "sample_orientation orientation_field center_orientation y x dy dx acc =
     (if y + dy \<ge> 0 \<and> y + dy < rows orientation_field \<and>
         x + dx \<ge> 0 \<and> x + dx < cols orientation_field
      then let local_orientation = mat_at orientation_field (y + dy) (x + dx);
               diff = \<bar>local_orientation - center_orientation\<bar>;
               diff' = (if diff > M_PI then 2 * M_PI - diff else diff)
           in (fst acc + diff' * diff', snd acc + 1)
      else acc)"

text \<open>The loop \<open>for (dx = -window_size/2; dx <= window_size/2; dx += 2)\<close>.\<close>

function dx_loop ::
  "real Mat \<Rightarrow> real \<Rightarrow> int \<Rightarrow> int \<Rightarrow> int \<Rightarrow> int \<Rightarrow> int \<Rightarrow> real \<times> int \<Rightarrow> real \<times> int" where
  "dx_loop orientation_field center_orientation y x dy hi dx acc =
     (if dx \<le> hi
      then dx_loop orientation_field center_orientation y x dy hi (dx + 2)
             (sample_orientation orientation_field center_orientation y x dy dx acc)
      else acc)"
  by pat_completeness auto
termination
  by (relation "measure (\<lambda>(orientation_field, center_orientation, y, x, dy, hi, dx, acc). nat (hi + 1 - dx))") auto

declare dx_loop.simps [simp del]

text \<open>The loop \<open>for (dy = -window_size/2; dy <= window_size/2; dy += 2)\<close>.\<close>

function dy_loop ::
  "real Mat \<Rightarrow> real \<Rightarrow> int \<Rightarrow> int \<Rightarrow> int \<Rightarrow> int \<Rightarrow> int \<Rightarrow> real \<times> int \<Rightarrow> real \<times> int" where
  "dy_loop orientation_field center_orientation y x lo hi dy acc =
     (if dy \<le> hi
      then dy_loop orientation_field center_orientation y x lo hi (dy + 2)
             (dx_loop orientation_field center_orientation y x dy hi lo acc)
      else acc)"
  by pat_completeness auto
termination
  by (relation "measure (\<lambda>(orientation_field, center_orientation, y, x, lo, hi, dy, acc). nat (hi + 1 - dy))") auto

declare dy_loop.simps [simp del]

text \<open>
  The body of the search loops at the grid position \<open>(y, x)\<close>: the orientation variance
  of the window and, when it exceeds 0.5 and the confidence exceeds the minimum, a new
  candidate at the end of the list.
\<close>

definition candidate_at ::
  "DetectionParams \<Rightarrow> real Mat \<Rightarrow> real Mat \<Rightarrow> int \<Rightarrow> int \<Rightarrow> CorePoint list \<Rightarrow> CorePoint list" where
  "candidate_at p orientation_field frequency_field y x candidates =
     (let window_size = block_size p;
          center_orientation = mat_at orientation_field y x;
          acc = dy_loop orientation_field center_orientation y x
                  (c_div (- window_size) 2) (c_div window_size 2) (c_div (- window_size) 2) (0, 0);
          count = snd acc
      in if count > 0 then
           let orientation_variance = fst acc / real_of_int count
           in if orientation_variance > 0.5 then
                let frequency_quality = mat_at frequency_field y x;
                    conf = orientation_variance * frequency_quality
                in if conf > min_confidence p
                   then candidates @ [\<lparr>cp_x = real_of_int x, cp_y = real_of_int y, confidence = conf\<rparr>]
                   else candidates
              else candidates
         else candidates)"

text \<open>
  The search loops \<open>for (x = window_size; x < cols - window_size; x += step)\<close> and the
  same over \<open>y\<close>, with \<open>step = window_size / 2\<close>. The stride is not positive when the
  block size is below 2; a loop that is entered then never ends, which is the value
  \<open>None\<close>.
\<close>

partial_function (option) x_loop ::
  "DetectionParams \<Rightarrow> real Mat \<Rightarrow> real Mat \<Rightarrow> int \<Rightarrow> int \<Rightarrow> CorePoint list \<Rightarrow> CorePoint list option" where
  "x_loop p orientation_field frequency_field y x candidates =
     (if x < cols orientation_field - block_size p
      then x_loop p orientation_field frequency_field y (x + c_div (block_size p) 2)
             (candidate_at p orientation_field frequency_field y x candidates)
      else Some candidates)"

partial_function (option) y_loop ::
  "DetectionParams \<Rightarrow> real Mat \<Rightarrow> real Mat \<Rightarrow> int \<Rightarrow> CorePoint list \<Rightarrow> CorePoint list option" where
  "y_loop p orientation_field frequency_field y candidates =
     (if y < rows orientation_field - block_size p
      then Option.bind (x_loop p orientation_field frequency_field y (block_size p) candidates)
             (\<lambda>candidates'. y_loop p orientation_field frequency_field (y + c_div (block_size p) 2) candidates')
      else Some candidates)"

declare x_loop.simps [code]

declare y_loop.simps [code]

definition detect_core_candidates ::
  "DetectionParams \<Rightarrow> real Mat \<Rightarrow> real Mat \<Rightarrow> CorePoint list option" where
  "detect_core_candidates p orientation_field frequency_field =
     y_loop p orientation_field frequency_field (block_size p) []"

definition is_point_valid :: "CorePoint \<Rightarrow> int \<Rightarrow> int \<Rightarrow> bool" where
  "is_point_valid point image_width image_height =
     (let margin = 50
      in cp_x point \<ge> real_of_int margin \<and> cp_x point < real_of_int (image_width - margin) \<and>
         cp_y point \<ge> real_of_int margin \<and> cp_y point < real_of_int (image_height - margin) \<and>
         confidence point > 0)"

text \<open>
  \<open>validate_core_point(orientation_field, image, candidate)\<close>: the rescaled confidence,
  or the exception of the sub-matrix.
\<close>

definition validate_core_point :: "real Mat \<Rightarrow> uint8 Mat \<Rightarrow> CorePoint \<Rightarrow> string + real" where
  "validate_core_point orientation_field img candidate =
     (let x = static_cast_int (cp_x candidate);
          y = static_cast_int (cp_y candidate)
      in if \<not> is_point_valid candidate (cols img) (rows img) then Inr 0
         else
           let window_size = 21;
               half_window = c_div window_size 2
           in if x - half_window < 0 \<or> x + half_window \<ge> cols img \<or>
                 y - half_window < 0 \<or> y + half_window \<ge> rows img
              then Inr (confidence candidate * 0.5)
              else
                (case Mat_roi img \<lparr>rect_x = x - half_window, rect_y = y - half_window,
                                   rect_width = window_size, rect_height = window_size\<rparr> of
                   Inl e \<Rightarrow> Inl e
                 | Inr local_area \<Rightarrow>
                     let contrast_score = snd (meanStdDev u8 local_area) / 255
                     in Inr (confidence candidate * contrast_score)))"

definition assess_image_quality :: "uint8 Mat \<Rightarrow> real" where
  "assess_image_quality img =
     (let stddev = snd (meanStdDev u8 img);
          contrast_score = stddev / 255;
          laplacian = Laplacian u8 img;
          laplacian_stddev = snd (meanStdDev (\<lambda>v. v) laplacian);
          sharpness_score = laplacian_stddev / 1000
      in min 1 (contrast_score + sharpness_score * 0.5))"

definition assess_roi_quality :: "ROI \<Rightarrow> real" where
  "assess_roi_quality roi =
     assess_image_quality
       \<lparr>rows = 101, cols = 101, channels = 1,
        mat_at = (\<lambda>y x. pixels roi ! nat y ! nat x)\<rparr>"

text \<open>
  \<open>select_best_core_point\<close>: \<open>std::max_element\<close> keeps the first of the largest
  elements.
\<close>

definition select_best_core_point :: "CorePoint list \<Rightarrow> CorePoint" where
  "select_best_core_point candidates =
     (case candidates of
        [] \<Rightarrow> CorePoint0
      | c # cs \<Rightarrow> fold (\<lambda>it largest. if confidence largest < confidence it then it else largest) cs c)"

definition validate_roi_size :: "ROI \<Rightarrow> bool" where
  "validate_roi_size roi = True"

text \<open>The static overload \<open>validate_core_point(const CorePoint&)\<close>.\<close>

definition validate_core_point_range :: "CorePoint \<Rightarrow> bool" where
  "validate_core_point_range point =
     (cp_x point \<ge> 0 \<and> cp_y point \<ge> 0 \<and> confidence point \<ge> 0 \<and> confidence point \<le> 1)"

definition update_stats :: "ProcessingStats \<Rightarrow> DetectionResult \<Rightarrow> ProcessingStats" where
  "update_stats stats result =
     (let s1 = stats\<lparr>total_images_processed := total_images_processed stats + 1\<rparr>;
          s2 = (if success result then
                  let s = s1\<lparr>successful_detections := successful_detections s1 + 1\<rparr>
                  in if core_points result \<noteq> [] then
                       s\<lparr>average_confidence :=
                           (average_confidence s * real (successful_detections s - 1) +
                            confidence (core_points result ! 0)) / real (successful_detections s)\<rparr>
                     else s
                else s1\<lparr>failed_detections := failed_detections s1 + 1\<rparr>)
      in s2\<lparr>average_processing_time_us :=
              (average_processing_time_us s2 * real (total_images_processed s2 - 1) +
               real (processing_time_us result)) / real (total_images_processed s2)\<rparr>)"

section \<open>The detection pipeline\<close>

text \<open>
  How the \<open>try\<close> block of \<open>detect_core_point\<close> ends: by a \<open>return\<close> inside the block,
  by reaching its end, or by an exception; each with the result as assigned so far.
\<close>

datatype outcome =
  Returned DetectionResult
| Completed DetectionResult
| Thrown string DetectionResult

text \<open>
  The \<open>try\<close> block. \<open>elapsed\<close> is the reading of the timer when it is stopped. The
  value is \<open>None\<close> when the candidate search does not end.
\<close>

definition try_block ::
  "library \<Rightarrow> bool \<Rightarrow> DetectionParams \<Rightarrow> ProcessingStats \<Rightarrow> uint8 Mat \<Rightarrow> string \<Rightarrow> int \<Rightarrow> nat \<Rightarrow>
     DetectionResult \<Rightarrow> (outcome \<times> ProcessingStats) option" where
  "try_block lib avx2 p stats img fname idx elapsed result =
     (case preprocess_image lib p img of
        Inl e \<Rightarrow> Some (Thrown e result, stats)
      | Inr processed_image \<Rightarrow>
          let result1 = result\<lparr>overall_quality := assess_image_quality processed_image\<rparr>
          in if overall_quality result1 < 0.2 then
               Some (Returned (result1\<lparr>error_message := ''Image quality too low for processing'',
                                        processing_time_us := elapsed\<rparr>), stats)
             else
               (case compute_orientation_field lib avx2 p stats processed_image of
                  Inl e \<Rightarrow> Some (Thrown e result1, stats)
                | Inr (orientation_field, stats1) \<Rightarrow>
                    (case compute_ridge_frequency p processed_image of
                       Inl e \<Rightarrow> Some (Thrown e result1, stats1)
                     | Inr frequency_field \<Rightarrow>
                         (case detect_core_candidates p orientation_field frequency_field of
                            None \<Rightarrow> None
                          | Some candidates \<Rightarrow>
                              if candidates = [] then
                                Some (Returned (result1\<lparr>error_message := ''No core point candidates found'',
                                                         processing_time_us := elapsed\<rparr>), stats1)
                              else
                                (case validate_core_point orientation_field processed_image
                                        (select_best_core_point candidates) of
                                   Inl e \<Rightarrow> Some (Thrown e result1, stats1)
                                 | Inr validated \<Rightarrow>
                                     let best_core = (select_best_core_point candidates)\<lparr>confidence := validated\<rparr>
                                     in if confidence best_core < min_confidence p then
                                          Some (Returned (result1\<lparr>error_message :=
                                                  ''Core point confidence too low: '' @ to_string lib (confidence best_core),
                                                  processing_time_us := elapsed\<rparr>), stats1)
                                        else
                                          let result2 = result1\<lparr>extracted_roi :=
                                                extract_roi_around_point img best_core fname idx\<rparr>
                                          in if \<not> validate_roi_size (extracted_roi result2) then
                                               Some (Returned (result2\<lparr>error_message := ''Failed to extract valid ROI'',
                                                                        processing_time_us := elapsed\<rparr>), stats1)
                                             else
                                               Some (Completed (result2\<lparr>
                                                   core_points := core_points result2 @ [best_core],
                                                   success := True,
                                                   overall_quality := min (overall_quality result2)
                                                       (assess_roi_quality (extracted_roi result2))\<rparr>), stats1))))))"

text \<open>
  \<open>detect_core_point\<close>: the three input checks, the \<open>try\<close> block, and after it the
  timer reading and \<open>update_stats\<close>. A \<open>return\<close> inside the block leaves the function
  at once. The detector's statistics are passed in and returned.
\<close>

definition detect_core_point ::
  "library \<Rightarrow> bool \<Rightarrow> DetectionParams \<Rightarrow> ProcessingStats \<Rightarrow> uint8 Mat \<Rightarrow> string \<Rightarrow> int \<Rightarrow> nat \<Rightarrow>
     (DetectionResult \<times> ProcessingStats) option" where
  "detect_core_point lib avx2 p stats img fname idx elapsed =
     (let result = DetectionResult0\<lparr>success := False\<rparr>
      in if empty img then
           Some (result\<lparr>error_message := ''Input image is empty''\<rparr>, stats)
         else if channels img \<noteq> 1 then
           Some (result\<lparr>error_message := ''Input image must be grayscale''\<rparr>, stats)
         else if rows img < 101 \<or> cols img < 101 then
           Some (result\<lparr>error_message := ''Input image too small (minimum 101x101)''\<rparr>, stats)
         else
           (case try_block lib avx2 p stats img fname idx elapsed result of
              None \<Rightarrow> None
            | Some (Returned r, stats1) \<Rightarrow> Some (r, stats1)
            | Some (Completed r, stats1) \<Rightarrow>
                let r1 = r\<lparr>processing_time_us := elapsed\<rparr>
                in Some (r1, update_stats stats1 r1)
            | Some (Thrown e r, stats1) \<Rightarrow>
                let r1 = r\<lparr>error_message := ''Exception during processing: '' @ e,
                            processing_time_us := elapsed\<rparr>
                in Some (r1, update_stats stats1 r1)))"

section \<open>Batch detection\<close>

text \<open>
  \<open>detect_batch\<close>. \<open>elapsed i\<close> is the timer reading of the call for image \<open>i\<close>. The
  sequential branch calls \<open>detect_core_point\<close> image by image.

  The parallel branch first launches one task per image with \<open>std::async\<close>; a future is
  the deferred call of \<open>detect_core_point\<close>. The tasks run in an order that the scheduler
  chooses: \<open>schedule\<close> is the list of the task numbers in that order. They share the
  statistics of the detector without synchronisation; the model lets them update the
  statistics one after the other, in the order of the schedule, and records the result
  of each task under its number. The second loop then takes the results of the futures
  in the order of submission; \<open>get\<close> on a future whose task does not end, or did not
  run, waits for ever, which is the value \<open>None\<close>.
\<close>

type_synonym future = "ProcessingStats \<Rightarrow> (DetectionResult \<times> ProcessingStats) option"

fun sequential_loop ::
  "library \<Rightarrow> bool \<Rightarrow> DetectionParams \<Rightarrow> uint8 Mat list \<Rightarrow> string list \<Rightarrow> (nat \<Rightarrow> nat) \<Rightarrow>
     nat list \<Rightarrow> DetectionResult list \<times> ProcessingStats \<Rightarrow> (DetectionResult list \<times> ProcessingStats) option" where
  "sequential_loop lib avx2 p images filenames elapsed [] acc = Some acc"
| "sequential_loop lib avx2 p images filenames elapsed (i # is) acc =
     (let fname = (if i < length filenames then filenames ! i else '''')
      in case detect_core_point lib avx2 p (snd acc) (images ! i) fname (int i) (elapsed i) of
           None \<Rightarrow> None
         | Some (r, stats') \<Rightarrow>
             sequential_loop lib avx2 p images filenames elapsed is (fst acc @ [r], stats'))"

fun launch_loop ::
  "library \<Rightarrow> bool \<Rightarrow> DetectionParams \<Rightarrow> uint8 Mat list \<Rightarrow> string list \<Rightarrow> (nat \<Rightarrow> nat) \<Rightarrow>
     nat list \<Rightarrow> future list \<Rightarrow> future list" where
  "launch_loop lib avx2 p images filenames elapsed [] futures = futures"
| "launch_loop lib avx2 p images filenames elapsed (i # is) futures =
     (let fname = (if i < length filenames then filenames ! i else '''')
      in launch_loop lib avx2 p images filenames elapsed is
           (futures @ [\<lambda>stats. detect_core_point lib avx2 p stats (images ! i) fname (int i) (elapsed i)]))"

fun run_tasks ::
  "future list \<Rightarrow> nat list \<Rightarrow> (nat \<Rightarrow> DetectionResult option) \<times> ProcessingStats \<Rightarrow>
     ((nat \<Rightarrow> DetectionResult option) \<times> ProcessingStats) option" where
  "run_tasks futures [] acc = Some acc"
| "run_tasks futures (k # ks) acc =
     (case (futures ! k) (snd acc) of
        None \<Rightarrow> None
      | Some (r, stats') \<Rightarrow> run_tasks futures ks ((fst acc)(k := Some r), stats'))"

fun collect_loop ::
  "(nat \<Rightarrow> DetectionResult option) \<Rightarrow> nat list \<Rightarrow> DetectionResult list \<Rightarrow> DetectionResult list option" where
  "collect_loop ready [] results = Some results"
| "collect_loop ready (i # is) results =
     (case ready i of
        None \<Rightarrow> None
      | Some r \<Rightarrow> collect_loop ready is (results @ [r]))"

definition detect_batch ::
  "library \<Rightarrow> bool \<Rightarrow> DetectionParams \<Rightarrow> ProcessingStats \<Rightarrow> uint8 Mat list \<Rightarrow> string list \<Rightarrow> bool \<Rightarrow>
     (nat \<Rightarrow> nat) \<Rightarrow> nat list \<Rightarrow> (DetectionResult list \<times> ProcessingStats) option" where
  "detect_batch lib avx2 p stats images filenames parallel elapsed schedule =
     (if parallel \<and> length images > 1 then
        let futures = launch_loop lib avx2 p images filenames elapsed [0..<length images] []
        in case run_tasks futures schedule (\<lambda>_. None, stats) of
             None \<Rightarrow> None
           | Some (ready, stats') \<Rightarrow>
               (case collect_loop ready [0..<length futures] [] of
                  None \<Rightarrow> None
                | Some results \<Rightarrow> Some (results, stats'))
      else sequential_loop lib avx2 p images filenames elapsed [0..<length images] ([], stats))"

section \<open>FileManager\<close>

text \<open>
  An entry of the image cache. \<open>last_accessed\<close> is a reading of the steady clock, in
  ticks.
\<close>

record ImageCache =
  image :: "uint8 Mat"
  filepath :: string
  memory_size :: size_t
  last_accessed :: nat

text \<open>
  The static members of \<open>FileManager\<close> and the two counters of its translation unit.
  The cache \<open>std::unordered_map<std::string, ImageCache>\<close> is an association list with
  one entry per key; the order of the list is the order in which the map is iterated.
  Of the log, the warnings of \<open>load_image\<close> are kept.
\<close>

record FileManager =
  image_cache :: "(string \<times> ImageCache) list"
  max_cache_size_mb :: size_t
  current_cache_size :: size_t
  cache_hits :: nat
  cache_misses :: nat
  warnings :: "string list"

definition FileManager0 :: FileManager where
  "FileManager0 =
     \<lparr>image_cache = [], max_cache_size_mb = 256, current_cache_size = 0,
      cache_hits = 0, cache_misses = 0, warnings = []\<rparr>"

text \<open>
  What the loader takes from outside: \<open>cv::imread(path, IMREAD_GRAYSCALE)\<close>, which gives
  an empty matrix for a file it cannot decode, and \<open>lexically_normal\<close> of
  \<open>std::filesystem::path\<close>.
\<close>

record storage =
  imread :: "string \<Rightarrow> uint8 Mat"
  lexically_normal :: "string \<Rightarrow> string"

text \<open>\<open>cv::Mat()\<close>.\<close>

definition Mat0 :: "uint8 Mat" where
  "Mat0 = \<lparr>rows = 0, cols = 0, channels = 1, mat_at = (\<lambda>_ _. 0)\<rparr>"

definition normalize_path :: "storage \<Rightarrow> string \<Rightarrow> string" where
  "normalize_path env path = lexically_normal env path"

text \<open>\<open>image.total() * image.elemSize()\<close>, in \<open>size_t\<close>.\<close>

definition calculate_image_memory_size :: "uint8 Mat \<Rightarrow> size_t" where
  "calculate_image_memory_size img = word_of_int (rows img * cols img) * word_of_int (channels img)"

definition set_cache_size_mb :: "FileManager \<Rightarrow> size_t \<Rightarrow> FileManager" where
  "set_cache_size_mb s size_mb = s\<lparr>max_cache_size_mb := size_mb\<rparr>"

text \<open>
  The scan of \<open>remove_oldest_cache_entry\<close>: it starts at the first entry and moves to a
  later one only when that one was accessed strictly earlier.
\<close>

definition oldest_entry :: "(string \<times> ImageCache) list \<Rightarrow> string \<times> ImageCache" where
  "oldest_entry cache =
     fold (\<lambda>it oldest. if last_accessed (snd it) < last_accessed (snd oldest) then it else oldest)
       cache (hd cache)"

definition remove_oldest_cache_entry :: "FileManager \<Rightarrow> FileManager" where
  "remove_oldest_cache_entry s =
     (if image_cache s = [] then s
      else let oldest = oldest_entry (image_cache s)
           in s\<lparr>current_cache_size := current_cache_size s - memory_size (snd oldest),
                image_cache := AList.delete (fst oldest) (image_cache s)\<rparr>)"

lemma oldest_entry_in_cache: "cache \<noteq> [] \<Longrightarrow> oldest_entry cache \<in> set cache"
proof -
  have "fold (\<lambda>it oldest. if last_accessed (snd it) < last_accessed (snd oldest) then it else oldest) xs e
      \<in> insert e (set xs)" for xs :: "(string \<times> ImageCache) list" and e
    by (induction xs arbitrary: e) auto
  from this [of cache "hd cache"] show "cache \<noteq> [] \<Longrightarrow> oldest_entry cache \<in> set cache"
    by (auto simp: oldest_entry_def)
qed

lemma remove_oldest_shrinks:
  "image_cache s \<noteq> [] \<Longrightarrow> length (image_cache (remove_oldest_cache_entry s)) < length (image_cache s)"
proof -
  assume ne: "image_cache s \<noteq> []"
  then have "oldest_entry (image_cache s) \<in> set (image_cache s)"
    by (rule oldest_entry_in_cache)
  then have "length (filter (\<lambda>e. fst (oldest_entry (image_cache s)) \<noteq> fst e) (image_cache s))
      < length (image_cache s)"
    by (rule length_filter_less) simp
  moreover have "AList.delete k al = filter (\<lambda>e. k \<noteq> fst e) al" for k and al :: "(string \<times> ImageCache) list"
    by (induction al) (auto simp: AList.delete_eq)
  ultimately show ?thesis
    using ne by (simp add: remove_oldest_cache_entry_def Let_def)
qed

text \<open>The loop of \<open>cleanup_cache_if_needed\<close>.\<close>

function cleanup_cache_if_needed :: "FileManager \<Rightarrow> FileManager" where
  "cleanup_cache_if_needed s =
     (let max_cache_bytes = max_cache_size_mb s * 1024 * 1024
      in if current_cache_size s > max_cache_bytes \<and> image_cache s \<noteq> []
         then cleanup_cache_if_needed (remove_oldest_cache_entry s)
         else s)"
  by pat_completeness auto
termination
proof (relation "measure (\<lambda>s. length (image_cache s))")
  show "wf (measure (\<lambda>s. length (image_cache s)))"
    by simp
next
  fix s :: FileManager and x :: size_t
  assume "x = max_cache_size_mb s * 1024 * 1024" and "x < current_cache_size s \<and> image_cache s \<noteq> []"
  then show "(remove_oldest_cache_entry s, s) \<in> measure (\<lambda>s. length (image_cache s))"
    by (simp add: remove_oldest_shrinks)
qed

declare cleanup_cache_if_needed.simps [simp del]

definition is_valid_fingerprint_image :: "uint8 Mat \<Rightarrow> bool" where
  "is_valid_fingerprint_image img =
     (if empty img then False
      else if channels img \<noteq> 1 then False
      else if rows img < 100 \<or> cols img < 100 then False
      else if rows img > 2000 \<or> cols img > 2000 then False
      else snd (meanStdDev u8 img) > 10)"

text \<open>
  \<open>load_image\<close>. \<open>now\<close> is the reading of the steady clock during the call. The result
  is the image returned and the new state.
\<close>

definition load_image :: "storage \<Rightarrow> FileManager \<Rightarrow> string \<Rightarrow> bool \<Rightarrow> nat \<Rightarrow> uint8 Mat \<times> FileManager" where
  "load_image env s path use_cache now =
     (let normalized_path = normalize_path env path
      in case (if use_cache then map_of (image_cache s) normalized_path else None) of
           Some entry \<Rightarrow>
             (image entry,
              s\<lparr>image_cache := AList.update normalized_path (entry\<lparr>last_accessed := now\<rparr>) (image_cache s),
                cache_hits := cache_hits s + 1\<rparr>)
         | None \<Rightarrow>
             let s1 = (if use_cache then s\<lparr>cache_misses := cache_misses s + 1\<rparr> else s);
                 img = imread env normalized_path
             in if empty img then (Mat0, s1)
                else
                  let s2 = (if \<not> is_valid_fingerprint_image img
                            then s1\<lparr>warnings := warnings s1 @
                                   [''Image may not be suitable for fingerprint processing: '' @ normalized_path]\<rparr>
                            else s1)
                  in if use_cache then
                       let cache_entry = \<lparr>image = img, filepath = normalized_path,
                                           memory_size = calculate_image_memory_size img,
                                           last_accessed = now\<rparr>;
                           s3 = s2\<lparr>current_cache_size := current_cache_size s2 + memory_size cache_entry\<rparr>;
                           s4 = s3\<lparr>image_cache := AList.update normalized_path cache_entry (image_cache s3)\<rparr>
                       in (img, cleanup_cache_if_needed s4)
                     else (img, s2))"

definition clear_cache :: "FileManager \<Rightarrow> FileManager" where
  "clear_cache s = s\<lparr>image_cache := [], current_cache_size := 0\<rparr>"

definition remove_from_cache :: "storage \<Rightarrow> FileManager \<Rightarrow> string \<Rightarrow> FileManager" where
  "remove_from_cache env s path =
     (let normalized_path = normalize_path env path
      in case map_of (image_cache s) normalized_path of
           Some entry \<Rightarrow>
             s\<lparr>current_cache_size := current_cache_size s - memory_size entry,
               image_cache := AList.delete normalized_path (image_cache s)\<rparr>
         | None \<Rightarrow> s)"

text \<open>\<open>reset_cache_statistics\<close>.\<close>

definition reset_cache_statistics :: "FileManager \<Rightarrow> FileManager" where
  "reset_cache_statistics s = s\<lparr>cache_hits := 0, cache_misses := 0\<rparr>"

text \<open>
  \<open>load_images_batch\<close>. \<open>success_flags\<close> is \<open>None\<close> for the null pointer; \<open>now k\<close> is the
  reading of the steady clock during the call that follows \<open>k\<close> loaded images.
\<close>

fun load_images_loop ::
  "storage \<Rightarrow> bool \<Rightarrow> (nat \<Rightarrow> nat) \<Rightarrow> string list \<Rightarrow>
     uint8 Mat list \<times> bool list option \<times> FileManager \<Rightarrow> uint8 Mat list \<times> bool list option \<times> FileManager" where
  "load_images_loop env use_cache now [] acc = acc"
| "load_images_loop env use_cache now (path # rest) (images, success_flags, s) =
     (let loaded = load_image env s path use_cache (now (length images))
      in load_images_loop env use_cache now rest
           (images @ [fst loaded],
            map_option (\<lambda>flags. flags @ [\<not> empty (fst loaded)]) success_flags,
            snd loaded))"

definition load_images_batch ::
  "storage \<Rightarrow> FileManager \<Rightarrow> string list \<Rightarrow> bool \<Rightarrow> bool list option \<Rightarrow> (nat \<Rightarrow> nat) \<Rightarrow>
     uint8 Mat list \<times> bool list option \<times> FileManager" where
  "load_images_batch env s filepaths use_cache success_flags now =
     load_images_loop env use_cache now filepaths ([], map_option (\<lambda>_. []) success_flags, s)"

section \<open>Terms of the specification and sample inputs\<close>

text \<open>The clamp of the specification: \<open>v\<close> limited to the interval from \<open>lo\<close> to \<open>hi\<close>.\<close>

definition clamp :: "int \<Rightarrow> int \<Rightarrow> int \<Rightarrow> int" where
  "clamp v lo hi = (if v < lo then lo else if hi < v then hi else v)"

text \<open>A 3 x 2 image whose pixel at \<open>(r, c)\<close> is \<open>10 r + c\<close>.\<close>

definition small_image :: "uint8 Mat" where
  "small_image = \<lparr>rows = 3, cols = 2, channels = 1, mat_at = (\<lambda>r c. word_of_int (10 * r + c))\<rparr>"

text \<open>
  The pixel \<open>(ix, iy)\<close> is at least 50 pixels away from every edge of an image of the
  given width and height.
\<close>

definition far_from_edges :: "int \<Rightarrow> int \<Rightarrow> int \<Rightarrow> int \<Rightarrow> bool" where
  "far_from_edges ix iy width height =
     (50 \<le> ix \<and> ix + 50 \<le> width - 1 \<and> 50 \<le> iy \<and> iy + 50 \<le> height - 1)"

text \<open>The 21 x 21 window centred on \<open>(ix, iy)\<close> leaves the image.\<close>

definition window_overflows :: "int \<Rightarrow> int \<Rightarrow> int \<Rightarrow> int \<Rightarrow> bool" where
  "window_overflows ix iy width height =
     (ix - 10 < 0 \<or> ix + 10 \<ge> width \<or> iy - 10 < 0 \<or> iy + 10 \<ge> height)"

text \<open>The standard deviation of the intensities in the 21 x 21 window centred on \<open>(ix, iy)\<close>.\<close>

definition window_stddev :: "uint8 Mat \<Rightarrow> int \<Rightarrow> int \<Rightarrow> real" where
  "window_stddev img ix iy =
     snd (meanStdDev u8 \<lparr>rows = 21, cols = 21, channels = channels img,
                          mat_at = (\<lambda>y x. mat_at img (iy - 10 + y) (ix - 10 + x))\<rparr>)"

text \<open>An image of one intensity, and a field of one value.\<close>

definition flat_image :: "int \<Rightarrow> int \<Rightarrow> uint8 \<Rightarrow> uint8 Mat" where
  "flat_image h w v = \<lparr>rows = h, cols = w, channels = 1, mat_at = (\<lambda>_ _. v)\<rparr>"

definition flat_field :: "int \<Rightarrow> int \<Rightarrow> real \<Rightarrow> real Mat" where
  "flat_field h w v = \<lparr>rows = h, cols = w, channels = 1, mat_at = (\<lambda>_ _. v)\<rparr>"

text \<open>
  An orientation field of 101 x 101 values, all \<open>3/2\<close> but for \<open>0\<close> at the grid
  position \<open>(16, 16)\<close>; the values lie in the range of \<open>compute_orientation_field\<close>.
\<close>

definition singular_field :: "real Mat" where
  "singular_field = \<lparr>rows = 101, cols = 101, channels = 1, mat_at = (\<lambda>y x. if y = 16 \<and> x = 16 then 0 else 3 / 2)\<rparr>"

text \<open>The error messages of the failures that \<open>detect_core_point\<close> reports.\<close>

definition failure_message :: "library \<Rightarrow> string \<Rightarrow> bool" where
  "failure_message lib m =
     (m = ''Input image is empty'' \<or> m = ''Input image must be grayscale'' \<or>
      m = ''Input image too small (minimum 101x101)'' \<or>
      m = ''Image quality too low for processing'' \<or>
      m = ''No core point candidates found'' \<or>
      (\<exists>v. m = ''Core point confidence too low: '' @ to_string lib v) \<or>
      (\<exists>e. m = ''Exception during processing: '' @ e))"

text \<open>All the pixels inside the matrix have one value.\<close>

definition constant_image :: "'a Mat \<Rightarrow> bool" where
  "constant_image m =
     (\<exists>v. \<forall>r c. 0 \<le> r \<and> r < rows m \<and> 0 \<le> c \<and> c < cols m \<longrightarrow> mat_at m r c = v)"

text \<open>
  Stand-ins for the library operators in the instances below: smoothing, normalising
  and equalising return their input, and the gradients are zero.
\<close>

definition stub_library :: library where
  "stub_library =
     \<lparr>GaussianBlur = (\<lambda>img ksize sigma. Inr img),
      normalize = (\<lambda>img alpha beta. Inr img),
      equalizeHist = (\<lambda>img. Inr img),
      Sobel = (\<lambda>img dx dy ksize. Inr (flat_field (rows img) (cols img) 0)),
      to_string = (\<lambda>v. ''0.000000'')\<rparr>"

text \<open>The running byte total is within the configured budget, or the cache is empty.\<close>

definition within_budget :: "FileManager \<Rightarrow> bool" where
  "within_budget s =
     (current_cache_size s \<le> max_cache_size_mb s * 1024 * 1024 \<or> image_cache s = [])"

text \<open>An image whose columns left of \<open>k\<close> have intensity \<open>a\<close> and the others \<open>b\<close>.\<close>

definition split_image :: "int \<Rightarrow> int \<Rightarrow> int \<Rightarrow> uint8 \<Rightarrow> uint8 \<Rightarrow> uint8 Mat" where
  "split_image h w k a b =
     \<lparr>rows = h, cols = w, channels = 1, mat_at = (\<lambda>r c. if c < k then a else b)\<rparr>"

text \<open>A storage that holds the 3 x 2 image under the name \<open>a.bmp\<close> and nothing else.\<close>

definition sample_storage :: storage where
  "sample_storage =
     \<lparr>imread = (\<lambda>path. if path = ''a.bmp'' then small_image else Mat0),
      lexically_normal = (\<lambda>path. path)\<rparr>"

text \<open>
  The bookkeeping of the cache is exact: the keys are distinct and the running byte
  total is the sum of the sizes of the entries.
\<close>

definition accounted :: "FileManager \<Rightarrow> bool" where
  "accounted s =
     (distinct (map fst (image_cache s)) \<and>
      unat (current_cache_size s) = (\<Sum>e\<leftarrow>image_cache s. unat (memory_size (snd e))))"

text \<open>
  A storage that holds the 3 x 2 image under the name \<open>a.bmp\<close>, a black image of
  1024 x 1024 pixels, one mebibyte, under the name \<open>b.bmp\<close>, and nothing else.
\<close>

definition two_files :: storage where
  "two_files =
     \<lparr>imread = (\<lambda>path. if path = ''a.bmp'' then small_image
                       else if path = ''b.bmp'' then flat_image 1024 1024 0 else Mat0),
      lexically_normal = (\<lambda>path. path)\<rparr>"

text \<open>A result without its processing time.\<close>

definition erase_time :: "DetectionResult \<Rightarrow> DetectionResult" where
  "erase_time r = r\<lparr>processing_time_us := 0\<rparr>"

text \<open>
  The result of the call that a batch makes for image \<open>i\<close>, when the call returns; the
  statistics that it starts from are those of a new detector.
\<close>

definition batch_call ::
  "library \<Rightarrow> bool \<Rightarrow> DetectionParams \<Rightarrow> uint8 Mat list \<Rightarrow> string list \<Rightarrow> (nat \<Rightarrow> nat) \<Rightarrow> nat \<Rightarrow>
     DetectionResult option" where
  "batch_call lib avx2 p images filenames elapsed i =
     map_option fst (detect_core_point lib avx2 p ProcessingStats0 (images ! i)
       (if i < length filenames then filenames ! i else '''') (int i) (elapsed i))"

section \<open>Properties of the ROI extraction\<close>

lemma fold_update_length:
  "length (fold (\<lambda>j r. r[j := g j (r ! j)]) js xs) = length xs"
  by (induction js arbitrary: xs) simp_all

lemma fold_update_upt_nth:
  "n \<le> length xs \<Longrightarrow>
   fold (\<lambda>j r. r[j := g j (r ! j)]) [0..<n] xs ! i = (if i < n then g i (xs ! i) else xs ! i)"
proof (induction n arbitrary: i)
  case 0
  then show ?case by simp
next
  case (Suc n)
  let ?r = "fold (\<lambda>j r. r[j := g j (r ! j)]) [0..<n] xs"
  have len: "length ?r = length xs"
    by (rule fold_update_length)
  have ih: "?r ! k = (if k < n then g k (xs ! k) else xs ! k)" for k
    using Suc.prems by (simp add: Suc.IH)
  show ?case
  proof (cases "i = n")
    case True
    with Suc.prems len ih [of n] show ?thesis by simp
  next
    case False
    with ih [of i] show ?thesis by auto
  qed
qed

lemma roi_row_loop_length: "length (roi_row_loop img cx cy y row) = length row"
  unfolding roi_row_loop_def Let_def
  by (rule fold_update_length
      [where g = "\<lambda>x _. mat_at img (clamp_coord (cy - 50 + int y) (rows img))
                                   (clamp_coord (cx - 50 + int x) (cols img))"])

lemma roi_row_loop_nth:
  assumes "length row = 101" and "x < 101"
  shows "roi_row_loop img cx cy y row ! x =
     mat_at img (clamp_coord (cy - 50 + int y) (rows img)) (clamp_coord (cx - 50 + int x) (cols img))"
proof -
  have "101 \<le> length row"
    using assms by simp
  from fold_update_upt_nth [OF this,
      where g = "\<lambda>x _. mat_at img (clamp_coord (cy - 50 + int y) (rows img))
                                   (clamp_coord (cx - 50 + int x) (cols img))" and i = x]
  show ?thesis
    using assms(2) by (simp add: roi_row_loop_def Let_def)
qed

lemma extract_roi_pixels:
  "pixels (extract_roi_around_point img p fname idx) =
     fold (\<lambda>y ps. ps[y := roi_row_loop img (static_cast_int (cp_x p)) (static_cast_int (cp_y p)) y (ps ! y)])
       [0..<101] (replicate 101 (replicate 101 0))"
  by (simp add: extract_roi_around_point_def ROI0_def Let_def)

lemma extract_roi_rows: "length (pixels (extract_roi_around_point img p fname idx)) = 101"
proof -
  have "length (fold (\<lambda>y ps. ps[y := roi_row_loop img (static_cast_int (cp_x p))
            (static_cast_int (cp_y p)) y (ps ! y)]) [0..<101] (replicate 101 (replicate 101 0)))
        = length (replicate 101 (replicate 101 (0 :: uint8)))"
    by (rule fold_update_length
        [where g = "roi_row_loop img (static_cast_int (cp_x p)) (static_cast_int (cp_y p))"])
  then show ?thesis
    by (simp add: extract_roi_pixels)
qed

lemma extract_roi_row:
  assumes "y < 101"
  shows "pixels (extract_roi_around_point img p fname idx) ! y =
     roi_row_loop img (static_cast_int (cp_x p)) (static_cast_int (cp_y p)) y (replicate 101 0)"
proof -
  have "101 \<le> length (replicate 101 (replicate 101 (0 :: uint8)))"
    by simp
  from fold_update_upt_nth [OF this,
      where g = "roi_row_loop img (static_cast_int (cp_x p)) (static_cast_int (cp_y p))" and i = y]
  show ?thesis
    using assms by (simp add: extract_roi_pixels)
qed

lemma extract_roi_cols:
  assumes "y < 101"
  shows "length (pixels (extract_roi_around_point img p fname idx) ! y) = 101"
  using assms by (simp add: extract_roi_row roi_row_loop_length)

lemma clamp_coord_clamp: "0 < n \<Longrightarrow> clamp_coord v n = clamp v 0 (n - 1)"
  by (auto simp: clamp_coord_def clamp_def Let_def)

text \<open>
  C2. For a non-empty image, the pixel at row \<open>y\<close> and column \<open>x\<close> of the extracted
  ROI (\<open>0 \<le> y, x \<le> 100\<close>) is the source pixel at row \<open>clamp (cy - 50 + y) 0 (rows - 1)\<close>
  and column \<open>clamp (cx - 50 + x) 0 (cols - 1)\<close>, where \<open>(cx, cy)\<close> is the integer
  center of the core point; each axis is clamped on its own, and the clamped position is
  inside the image, so a sample outside the image is the nearest edge pixel.
\<close>

theorem extract_roi_clamped_copy:
  assumes "y < 101" and "x < 101" and "0 < rows img" and "0 < cols img"
  shows "pixels (extract_roi_around_point img p fname idx) ! y ! x =
           mat_at img (clamp (static_cast_int (cp_y p) - 50 + int y) 0 (rows img - 1))
                      (clamp (static_cast_int (cp_x p) - 50 + int x) 0 (cols img - 1))
         \<and> 0 \<le> clamp (static_cast_int (cp_y p) - 50 + int y) 0 (rows img - 1)
         \<and> clamp (static_cast_int (cp_y p) - 50 + int y) 0 (rows img - 1) < rows img
         \<and> 0 \<le> clamp (static_cast_int (cp_x p) - 50 + int x) 0 (cols img - 1)
         \<and> clamp (static_cast_int (cp_x p) - 50 + int x) 0 (cols img - 1) < cols img
         \<and> length (pixels (extract_roi_around_point img p fname idx)) = 101
         \<and> length (pixels (extract_roi_around_point img p fname idx) ! y) = 101"
proof -
  have "pixels (extract_roi_around_point img p fname idx) ! y ! x =
      mat_at img (clamp_coord (static_cast_int (cp_y p) - 50 + int y) (rows img))
                 (clamp_coord (static_cast_int (cp_x p) - 50 + int x) (cols img))"
    using assms(1,2) by (simp add: extract_roi_row roi_row_loop_nth)
  moreover have "0 \<le> clamp v 0 (n - 1) \<and> clamp v 0 (n - 1) < n" if "0 < n" for v n
    using that by (auto simp: clamp_def)
  ultimately show ?thesis
    using assms by (simp add: clamp_coord_clamp extract_roi_rows extract_roi_cols)
qed

text \<open>
  An instance: the 3 x 2 image \<open>small_image\<close> and the core point \<open>(0, 0)\<close>; the ROI
  position \<open>(100, 100)\<close> maps to source position \<open>(50, 50)\<close>, outside the image, and
  holds the corner pixel \<open>(2, 1)\<close>.
\<close>

theorem extract_roi_clamped_copy_witness:
  "pixels (extract_roi_around_point small_image CorePoint0 ''a.bmp'' 0) ! 100 ! 100 = 21"
  using extract_roi_clamped_copy [of 100 100 small_image CorePoint0 "''a.bmp''" 0]
  by (simp add: small_image_def CorePoint0_def static_cast_int_def clamp_def)

section \<open>Properties of the validation\<close>

lemma is_point_valid_far_from_edges:
  "is_point_valid c w h \<longleftrightarrow>
     far_from_edges (static_cast_int (cp_x c)) (static_cast_int (cp_y c)) w h \<and> confidence c > 0"
proof -
  have coord: "(real_of_int 50 \<le> r \<and> r < real_of_int (n - 50)) \<longleftrightarrow>
      (50 \<le> static_cast_int r \<and> static_cast_int r + 50 \<le> n - 1)" for r :: real and n :: int
  proof (cases "0 \<le> r")
    case True
    have "(50 \<le> \<lfloor>r\<rfloor>) = (real_of_int 50 \<le> r)"
      by (rule le_floor_iff)
    moreover have "(\<lfloor>r\<rfloor> < n - 50) = (r < real_of_int (n - 50))"
      by (rule floor_less_iff)
    ultimately show ?thesis
      using True by (auto simp: static_cast_int_def)
  next
    case False
    then have "\<lceil>r\<rceil> \<le> 0"
      by (simp add: ceiling_le_iff)
    with False show ?thesis
      by (simp add: static_cast_int_def)
  qed
  show ?thesis
    using coord [of "cp_x c" w] coord [of "cp_y c" h]
    by (auto simp: is_point_valid_def far_from_edges_def Let_def)
qed

lemma far_from_edges_no_overflow:
  "far_from_edges ix iy w h \<Longrightarrow> \<not> window_overflows ix iy w h"
  by (auto simp: far_from_edges_def window_overflows_def)

lemma c_div_21: "c_div 21 2 = 10"
  by (simp add: c_div_def)

text \<open>
  C4. \<open>validate_core_point\<close> returns 0 when the integer position of the candidate is
  not at least 50 pixels from every image edge or its confidence is not positive;
  otherwise it returns the confidence times the standard deviation over the 21 x 21
  window around the position divided by 255, halved when that window overflows the
  image. A position 50 pixels from every edge never has an overflowing window, so the
  halving never applies; no exception is raised.
\<close>

theorem validate_core_point_rescales:
  "validate_core_point orientation_field img c =
     Inr (if \<not> far_from_edges (static_cast_int (cp_x c)) (static_cast_int (cp_y c)) (cols img) (rows img)
             \<or> confidence c \<le> 0
          then 0
          else confidence c
               * (window_stddev img (static_cast_int (cp_x c)) (static_cast_int (cp_y c)) / 255)
               * (if window_overflows (static_cast_int (cp_x c)) (static_cast_int (cp_y c)) (cols img) (rows img)
                  then 1 / 2 else 1))
   \<and> (far_from_edges (static_cast_int (cp_x c)) (static_cast_int (cp_y c)) (cols img) (rows img)
        \<longrightarrow> \<not> window_overflows (static_cast_int (cp_x c)) (static_cast_int (cp_y c)) (cols img) (rows img))"
proof (cases "is_point_valid c (cols img) (rows img)")
  case False
  then show ?thesis
    using is_point_valid_far_from_edges [of c "cols img" "rows img"]
    by (auto simp: validate_core_point_def Let_def dest: far_from_edges_no_overflow)
next
  case True
  let ?ix = "static_cast_int (cp_x c)" and ?iy = "static_cast_int (cp_y c)"
  from True have far: "far_from_edges ?ix ?iy (cols img) (rows img)" and pos: "confidence c > 0"
    by (simp_all add: is_point_valid_far_from_edges)
  from far have no: "\<not> window_overflows ?ix ?iy (cols img) (rows img)"
    by (rule far_from_edges_no_overflow)
  from no have inside: "\<not> (?ix - 10 < 0 \<or> ?ix + 10 \<ge> cols img \<or> ?iy - 10 < 0 \<or> ?iy + 10 \<ge> rows img)"
    by (simp add: window_overflows_def)
  then have roi: "Mat_roi img \<lparr>rect_x = ?ix - 10, rect_y = ?iy - 10, rect_width = 21, rect_height = 21\<rparr> =
      Inr \<lparr>rows = 21, cols = 21, channels = channels img,
           mat_at = (\<lambda>y x. mat_at img (?iy - 10 + y) (?ix - 10 + x))\<rparr>"
    by (auto simp: Mat_roi_def)
  have "validate_core_point orientation_field img c =
      Inr (confidence c * (window_stddev img ?ix ?iy / 255))"
    using True inside roi by (simp add: validate_core_point_def Let_def c_div_21 window_stddev_def)
  with far pos no show ?thesis
    by simp
qed

text \<open>
  An instance: the candidate \<open>(50, 50)\<close> with confidence \<open>4/5\<close> in a 101 x 101 image,
  the one position such an image allows.
\<close>

theorem validate_core_point_rescales_witness:
  "validate_core_point (flat_field 101 101 0) (flat_image 101 101 7)
       \<lparr>cp_x = 50, cp_y = 50, confidence = 4 / 5\<rparr> =
     Inr (4 / 5 * (window_stddev (flat_image 101 101 7) 50 50 / 255))
   \<and> \<not> window_overflows 50 50 101 101"
  using validate_core_point_rescales [of "flat_field 101 101 0" "flat_image 101 101 7"
      "\<lparr>cp_x = 50, cp_y = 50, confidence = 4 / 5\<rparr>"]
  by (simp add: flat_image_def static_cast_int_def far_from_edges_def window_overflows_def)

section \<open>Properties of the quality measure\<close>

lemma mat_sum_constant:
  assumes "\<And>r c. 0 \<le> r \<Longrightarrow> r < rows m \<Longrightarrow> 0 \<le> c \<Longrightarrow> c < cols m \<Longrightarrow> f (mat_at m r c) = k"
  shows "mat_sum f m = real (nat (rows m)) * (real (nat (cols m)) * k)"
proof -
  have inner: "(\<Sum>c\<leftarrow>[0..<nat (cols m)]. f (mat_at m (int r) (int c))) = real (nat (cols m)) * k"
    if "r < nat (rows m)" for r
  proof -
    have "(\<Sum>c\<leftarrow>[0..<nat (cols m)]. f (mat_at m (int r) (int c))) = (\<Sum>c\<leftarrow>[0..<nat (cols m)]. k)"
      using that by (intro arg_cong [where f = sum_list] map_cong refl assms) auto
    also have "\<dots> = real (nat (cols m)) * k"
      by (simp add: sum_list_triv)
    finally show ?thesis .
  qed
  have "mat_sum f m = (\<Sum>r\<leftarrow>[0..<nat (rows m)]. real (nat (cols m)) * k)"
    unfolding mat_sum_def
    by (intro arg_cong [where f = sum_list] map_cong refl inner) auto
  also have "\<dots> = real (nat (rows m)) * (real (nat (cols m)) * k)"
    by (simp add: sum_list_triv)
  finally show ?thesis .
qed

lemma meanStdDev_constant:
  assumes "\<And>r c. 0 \<le> r \<Longrightarrow> r < rows m \<Longrightarrow> 0 \<le> c \<Longrightarrow> c < cols m \<Longrightarrow> val (mat_at m r c) = a"
  shows "snd (meanStdDev val m) = 0"
proof (cases "0 < rows m \<and> 0 < cols m")
  case True
  then have n: "real (nat (rows m)) * real (nat (cols m)) = real_of_int (rows m * cols m)"
    and pos: "real_of_int (rows m * cols m) \<noteq> 0"
    by simp_all
  have s1: "mat_sum val m = real_of_int (rows m * cols m) * a"
    using mat_sum_constant [of m val a] assms n by (simp add: mult.assoc)
  have s2: "mat_sum (\<lambda>v. val v * val v) m = real_of_int (rows m * cols m) * (a * a)"
    using mat_sum_constant [of m "\<lambda>v. val v * val v" "a * a"] assms n by (simp add: mult.assoc)
  from pos show ?thesis
    unfolding meanStdDev_def Let_def s1 s2 by simp
next
  case False
  then have z: "real (nat (rows m)) * (real (nat (cols m)) * k) = 0" for k
    by auto
  have s1: "mat_sum val m = 0"
    using mat_sum_constant [of m val a] assms z by simp
  have s2: "mat_sum (\<lambda>v. val v * val v) m = 0"
    using mat_sum_constant [of m "\<lambda>v. val v * val v" "a * a"] assms z by simp
  show ?thesis
    unfolding meanStdDev_def Let_def s1 s2 by simp
qed

lemma borderInterpolate_inside:
  assumes "0 \<le> q" and "q < len" and "d = - 1 \<or> d = 0 \<or> d = 1"
  shows "0 \<le> borderInterpolate (q + d) len \<and> borderInterpolate (q + d) len < len"
  using assms by (auto simp: borderInterpolate_def)

lemma Laplacian_constant:
  assumes "\<And>r c. 0 \<le> r \<Longrightarrow> r < rows m \<Longrightarrow> 0 \<le> c \<Longrightarrow> c < cols m \<Longrightarrow> val (mat_at m r c) = a"
    and "0 \<le> y" and "y < rows m" and "0 \<le> x" and "x < cols m"
  shows "mat_at (Laplacian val m) y x = 0"
proof -
  have s: "val (mat_at m (borderInterpolate (y + dy) (rows m)) (borderInterpolate (x + dx) (cols m))) = a"
    if "dy = - 1 \<or> dy = 0 \<or> dy = 1" and "dx = - 1 \<or> dx = 0 \<or> dx = 1" for dy dx
    using borderInterpolate_inside [OF assms(2,3) that(1)] borderInterpolate_inside [OF assms(4,5) that(2)]
    by (intro assms(1)) simp_all
  from s [of "- 1" 0] s [of 1 0] s [of 0 "- 1"] s [of 0 1] s [of 0 0]
  show ?thesis
    by (simp add: Laplacian_def Let_def)
qed

lemma assess_image_quality_constant:
  assumes "constant_image img"
  shows "assess_image_quality img = 0"
proof -
  from assms obtain v where
    v: "\<And>r c. 0 \<le> r \<Longrightarrow> r < rows img \<Longrightarrow> 0 \<le> c \<Longrightarrow> c < cols img \<Longrightarrow> mat_at img r c = v"
    unfolding constant_image_def by blast
  have "snd (meanStdDev u8 img) = 0"
    by (rule meanStdDev_constant [where a = "u8 v"]) (simp add: v)
  moreover have "snd (meanStdDev (\<lambda>v. v) (Laplacian u8 img)) = 0"
  proof (rule meanStdDev_constant [where a = 0])
    fix r c
    assume "0 \<le> r" "r < rows (Laplacian u8 img)" "0 \<le> c" "c < cols (Laplacian u8 img)"
    then have "0 \<le> r" "r < rows img" "0 \<le> c" "c < cols img"
      by (simp_all add: Laplacian_def)
    then show "mat_at (Laplacian u8 img) r c = 0"
      by (intro Laplacian_constant [where a = "u8 v"]) (simp_all add: v)
  qed
  ultimately show ?thesis
    by (simp add: assess_image_quality_def Let_def)
qed

lemma quality_gate_result:
  assumes "channels img = 1" and "101 \<le> rows img" and "101 \<le> cols img"
    and "preprocess_image lib p img = Inr pre" and "assess_image_quality pre < 0.2"
  shows "detect_core_point lib avx2 p stats img fname idx elapsed =
     Some (DetectionResult0\<lparr>overall_quality := assess_image_quality pre,
             error_message := ''Image quality too low for processing'',
             processing_time_us := elapsed\<rparr>, stats)"
proof -
  from assms(2,3) have "\<not> empty img"
    by (auto simp: empty_def)
  with assms show ?thesis
    by (simp add: detect_core_point_def try_block_def Let_def DetectionResult0_def)
qed

text \<open>
  C6. The quality of an image is \<open>min 1 (stddev / 255 + 0.5 * stddev of the Laplacian / 1000)\<close>.
  When that value of the preprocessed image is below 0.2, \<open>detect_core_point\<close> returns
  a failure with the quality message. A constant image has quality 0, so an input of at
  least 101 x 101 pixels that the preprocessing leaves constant fails at this gate.
\<close>

theorem quality_gate_rejects:
  "assess_image_quality pre =
     min 1 (snd (meanStdDev u8 pre) / 255 + 0.5 * (snd (meanStdDev (\<lambda>v. v) (Laplacian u8 pre)) / 1000))
   \<and> (channels img = 1 \<and> 101 \<le> rows img \<and> 101 \<le> cols img \<and>
        preprocess_image lib p img = Inr pre \<and> assess_image_quality pre < 0.2 \<longrightarrow>
        (\<exists>r. detect_core_point lib avx2 p stats img fname idx elapsed = Some (r, stats) \<and>
             \<not> success r \<and> core_points r = [] \<and>
             error_message r = ''Image quality too low for processing''))
   \<and> (channels img = 1 \<and> 101 \<le> rows img \<and> 101 \<le> cols img \<and> constant_image img \<and>
        preprocess_image lib p img = Inr pre \<and> constant_image pre \<longrightarrow>
        assess_image_quality pre = 0 \<and>
        (\<exists>r. detect_core_point lib avx2 p stats img fname idx elapsed = Some (r, stats) \<and>
             \<not> success r \<and> core_points r = [] \<and>
             error_message r = ''Image quality too low for processing''))"
proof (intro conjI impI)
  show "assess_image_quality pre =
     min 1 (snd (meanStdDev u8 pre) / 255 + 0.5 * (snd (meanStdDev (\<lambda>v. v) (Laplacian u8 pre)) / 1000))"
    by (simp add: assess_image_quality_def Let_def)
next
  assume "channels img = 1 \<and> 101 \<le> rows img \<and> 101 \<le> cols img \<and>
        preprocess_image lib p img = Inr pre \<and> assess_image_quality pre < 0.2"
  then show "\<exists>r. detect_core_point lib avx2 p stats img fname idx elapsed = Some (r, stats) \<and>
             \<not> success r \<and> core_points r = [] \<and>
             error_message r = ''Image quality too low for processing''"
    by (simp add: quality_gate_result DetectionResult0_def)
next
  assume a: "channels img = 1 \<and> 101 \<le> rows img \<and> 101 \<le> cols img \<and> constant_image img \<and>
        preprocess_image lib p img = Inr pre \<and> constant_image pre"
  then show "assess_image_quality pre = 0"
    by (simp add: assess_image_quality_constant)
  with a show "\<exists>r. detect_core_point lib avx2 p stats img fname idx elapsed = Some (r, stats) \<and>
             \<not> success r \<and> core_points r = [] \<and>
             error_message r = ''Image quality too low for processing''"
    by (simp add: quality_gate_result DetectionResult0_def)
qed

text \<open>
  An instance: the flat mid-gray 200 x 200 image of the specification, with library
  operators that leave it as it is.
\<close>

theorem quality_gate_rejects_witness:
  "\<exists>r. detect_core_point stub_library False DetectionParams0 ProcessingStats0
          (flat_image 200 200 128) ''flat.bmp'' 0 7 = Some (r, ProcessingStats0) \<and>
       \<not> success r \<and> core_points r = [] \<and>
       error_message r = ''Image quality too low for processing''"
proof -
  have c: "constant_image (flat_image 200 200 128)"
    by (auto simp: constant_image_def flat_image_def)
  have "preprocess_image stub_library DetectionParams0 (flat_image 200 200 128) =
      Inr (flat_image 200 200 128)"
    by (simp add: preprocess_image_def stub_library_def)
  with c quality_gate_rejects [of "flat_image 200 200 128" "flat_image 200 200 128" stub_library
      DetectionParams0 False ProcessingStats0 "''flat.bmp''" 0 7]
  show ?thesis
    by (simp add: flat_image_def)
qed

subsection \<open>An image of two intensities\<close>

lemma sum_list_split_columns:
  assumes "0 \<le> k" and "k \<le> w"
  shows "(\<Sum>c\<leftarrow>[0..<nat w]. f (if int c < k then a else b)) =
     real (nat k) * f a + real (nat (w - k)) * f b"
proof -
  from assms have w: "nat w = nat k + nat (w - k)"
    by linarith
  have "[0..<nat k + nat (w - k)] = [0..<nat k] @ [nat k..<nat k + nat (w - k)]"
    by (rule upt_add_eq_append) simp
  with w have "[0..<nat w] = [0..<nat k] @ [nat k..<nat k + nat (w - k)]"
    by simp
  then have "(\<Sum>c\<leftarrow>[0..<nat w]. f (if int c < k then a else b)) =
      (\<Sum>c\<leftarrow>[0..<nat k]. f (if int c < k then a else b)) +
      (\<Sum>c\<leftarrow>[nat k..<nat k + nat (w - k)]. f (if int c < k then a else b))"
    by simp
  also have "(\<Sum>c\<leftarrow>[0..<nat k]. f (if int c < k then a else b)) = (\<Sum>c\<leftarrow>[0..<nat k]. f a)"
    by (intro arg_cong [where f = sum_list] map_cong refl) auto
  also have "(\<Sum>c\<leftarrow>[nat k..<nat k + nat (w - k)]. f (if int c < k then a else b)) =
      (\<Sum>c\<leftarrow>[nat k..<nat k + nat (w - k)]. f b)"
    using assms by (intro arg_cong [where f = sum_list] map_cong refl) auto
  finally show ?thesis
    by (simp add: sum_list_triv)
qed

lemma mat_sum_split_image:
  assumes "0 \<le> k" and "k \<le> w"
  shows "mat_sum f (split_image h w k a b) =
     real (nat h) * (real (nat k) * f a + real (nat (w - k)) * f b)"
  by (simp add: mat_sum_def split_image_def sum_list_split_columns [OF assms] sum_list_triv)

lemma meanStdDev_nonneg: "0 \<le> snd (meanStdDev val m)"
  by (simp add: meanStdDev_def Let_def)

lemma split_image_quality:
  "\<not> assess_image_quality (split_image 200 200 100 0 255) < 0.2"
proof -
  have s1: "mat_sum u8 (split_image 200 200 100 0 255) = 5100000"
    by (simp add: mat_sum_split_image u8_def)
  have s2: "mat_sum (\<lambda>v. u8 v * u8 v) (split_image 200 200 100 0 255) = 1300500000"
    by (simp add: mat_sum_split_image u8_def)
  have d: "rows (split_image 200 200 100 0 255) = 200" "cols (split_image 200 200 100 0 255) = 200"
    by (simp_all add: split_image_def)
  have "snd (meanStdDev u8 (split_image 200 200 100 0 255)) = sqrt (65025 / 4)"
    unfolding meanStdDev_def Let_def s1 s2 d by simp
  moreover have "(51 :: real) \<le> sqrt (65025 / 4)"
    by (rule real_le_rsqrt) simp
  ultimately have "1 / 5 \<le> snd (meanStdDev u8 (split_image 200 200 100 0 255)) / 255"
    by simp
  moreover have "0 \<le> snd (meanStdDev (\<lambda>v. v) (Laplacian u8 (split_image 200 200 100 0 255))) / 1000 * 0.5"
    using meanStdDev_nonneg [of "\<lambda>v. v" "Laplacian u8 (split_image 200 200 100 0 255)"] by simp
  ultimately show ?thesis
    unfolding assess_image_quality_def Let_def by (simp add: min_def)
qed

section \<open>Properties of the detection pipeline\<close>

subsection \<open>The candidate search ends when the stride is positive\<close>

lemma candidate_at_extends:
  "\<exists>new. candidate_at p orientation_field frequency_field y x candidates = candidates @ new"
  by (simp add: candidate_at_def Let_def)

lemma x_loop_extends:
  assumes "0 < c_div (block_size p) 2"
  shows "\<exists>rest. x_loop p orientation_field frequency_field y x candidates = Some (candidates @ rest)"
proof (induction "nat (cols orientation_field - block_size p - x)" arbitrary: x candidates
    rule: less_induct)
  case less
  show ?case
  proof (cases "x < cols orientation_field - block_size p")
    case True
    with assms
    have "nat (cols orientation_field - block_size p - (x + c_div (block_size p) 2))
        < nat (cols orientation_field - block_size p - x)"
      by simp
    from less [OF this] obtain rest where
      "x_loop p orientation_field frequency_field y (x + c_div (block_size p) 2)
         (candidate_at p orientation_field frequency_field y x candidates) =
       Some (candidate_at p orientation_field frequency_field y x candidates @ rest)"
      by blast
    moreover obtain new where
      "candidate_at p orientation_field frequency_field y x candidates = candidates @ new"
      using candidate_at_extends by blast
    ultimately have
      "x_loop p orientation_field frequency_field y (x + c_div (block_size p) 2)
         (candidate_at p orientation_field frequency_field y x candidates) =
       Some (candidates @ (new @ rest))"
      by simp
    with True show ?thesis
      by (subst x_loop.simps) (simp del: append_assoc)
  next
    case False
    then show ?thesis
      by (subst x_loop.simps) simp
  qed
qed

lemma y_loop_extends:
  assumes "0 < c_div (block_size p) 2"
  shows "\<exists>rest. y_loop p orientation_field frequency_field y candidates = Some (candidates @ rest)"
proof (induction "nat (rows orientation_field - block_size p - y)" arbitrary: y candidates
    rule: less_induct)
  case less
  show ?case
  proof (cases "y < rows orientation_field - block_size p")
    case True
    from x_loop_extends [OF assms] obtain rest1 where
      x: "x_loop p orientation_field frequency_field y (block_size p) candidates =
          Some (candidates @ rest1)"
      by blast
    from True assms
    have "nat (rows orientation_field - block_size p - (y + c_div (block_size p) 2))
        < nat (rows orientation_field - block_size p - y)"
      by simp
    from less [OF this] obtain rest2 where
      "y_loop p orientation_field frequency_field (y + c_div (block_size p) 2) (candidates @ rest1) =
       Some ((candidates @ rest1) @ rest2)"
      by blast
    then have
      "y_loop p orientation_field frequency_field (y + c_div (block_size p) 2) (candidates @ rest1) =
       Some (candidates @ (rest1 @ rest2))"
      by simp
    with True x show ?thesis
      by (subst y_loop.simps) (simp del: append_assoc)
  next
    case False
    then show ?thesis
      by (subst y_loop.simps) simp
  qed
qed

lemma y_loop_terminates:
  assumes "0 < c_div (block_size p) 2"
  shows "\<exists>cs. y_loop p orientation_field frequency_field y candidates = Some cs"
  using y_loop_extends [OF assms, of orientation_field frequency_field y candidates] by blast

lemma c_div_2_pos: "2 \<le> b \<Longrightarrow> 0 < c_div b 2"
proof -
  assume "2 \<le> b"
  then have "1 \<le> b div 2" and "sgn b = 1" and "\<bar>b\<bar> = b"
    by simp_all
  then show ?thesis
    by (simp add: c_div_def)
qed

lemma detect_core_candidates_terminates:
  "2 \<le> block_size p \<Longrightarrow> \<exists>cs. detect_core_candidates p orientation_field frequency_field = Some cs"
  unfolding detect_core_candidates_def by (rule y_loop_terminates) (rule c_div_2_pos)

subsection \<open>The candidate search does not end when the stride is zero\<close>

lemma x_loop_diverges:
  assumes "c_div (block_size p) 2 = 0" and "x < cols orientation_field - block_size p"
  shows "x_loop p orientation_field frequency_field y x candidates = None"
proof (cases "x_loop p orientation_field frequency_field y x candidates")
  case None
  then show ?thesis .
next
  case (Some r)
  define stuck :: "DetectionParams \<Rightarrow> real Mat \<Rightarrow> real Mat \<Rightarrow> int \<Rightarrow> int \<Rightarrow> CorePoint list
      \<Rightarrow> CorePoint list \<Rightarrow> bool"
    where "stuck = (\<lambda>p orientation_field frequency_field y x candidates r.
      \<not> (c_div (block_size p) 2 = 0 \<and> x < cols orientation_field - block_size p))"
  have "stuck p orientation_field frequency_field y x candidates r"
  proof (rule x_loop.raw_induct [where xa = "(((((p, orientation_field), frequency_field), y), x), candidates)"
        and ya = r and P = stuck, simplified])
    fix f p' O' F' y' x' c' r'
    assume IH: "\<And>p a b y x c r. f p a b y x c = Some r \<Longrightarrow> stuck p a b y x c r"
      and eq: "(if x' < cols O' - block_size p'
                then f p' O' F' y' (x' + c_div (block_size p') 2) (candidate_at p' O' F' y' x' c')
                else Some c') = Some r'"
    show "stuck p' O' F' y' x' c' r'"
      unfolding stuck_def
    proof
      assume a: "c_div (block_size p') 2 = 0 \<and> x' < cols O' - block_size p'"
      with eq have "f p' O' F' y' x' (candidate_at p' O' F' y' x' c') = Some r'"
        by simp
      from IH [OF this] a show False
        by (simp add: stuck_def)
    qed
  next
    show "x_loop p orientation_field frequency_field y x candidates = Some r"
      by (rule Some)
  qed
  with assms show ?thesis
    by (simp add: stuck_def)
qed

lemma detect_core_candidates_diverges:
  assumes "block_size p = 1" and "2 < rows orientation_field" and "2 < cols orientation_field"
  shows "detect_core_candidates p orientation_field frequency_field = None"
proof -
  from assms have "c_div (block_size p) 2 = 0" and "block_size p < cols orientation_field - block_size p"
    by (simp_all add: c_div_def)
  then have "x_loop p orientation_field frequency_field (block_size p) (block_size p) [] = None"
    by (rule x_loop_diverges)
  with assms show ?thesis
    unfolding detect_core_candidates_def by (subst y_loop.simps) simp
qed

subsection \<open>The frequency estimate of a positive block size\<close>

lemma fold_Inr:
  assumes "\<And>x a. x \<in> set xs \<Longrightarrow> \<exists>b. step x (Inr a) = Inr b"
  shows "\<exists>b. fold step xs (Inr a) = Inr b"
  using assms
proof (induction xs arbitrary: a)
  case Nil
  show ?case by simp
next
  case (Cons x xs)
  from Cons.prems [of x a] obtain b where "step x (Inr a) = Inr b"
    by auto
  with Cons.IH [of b] Cons.prems show ?case
    by simp
qed

lemma compute_ridge_frequency_returns:
  assumes "1 \<le> block_size p"
  shows "\<exists>frequency. compute_ridge_frequency p img =
     Inr \<lparr>rows = rows img, cols = cols img, channels = 1, mat_at = frequency\<rparr>"
proof -
  let ?w = "block_size p" and ?h = "c_div (block_size p) 2"
  from assms have h: "?h = ?w div 2"
    by (simp add: c_div_def)
  have cell: "\<exists>b. (case Inr a of
          Inl e \<Rightarrow> Inl e
        | Inr frequency \<Rightarrow>
            (case Mat_roi img \<lparr>rect_x = x - ?h, rect_y = y - ?h, rect_width = ?w, rect_height = ?w\<rparr> of
               Inl e \<Rightarrow> Inl e
             | Inr block \<Rightarrow>
                 (case cv_meanStdDev u8 block of
                    Inl e \<Rightarrow> Inl e
                  | Inr mean_stddev \<Rightarrow>
                      Inr (frequency(y := (frequency y)(x := snd mean_stddev / 255)))))) =
        (Inr b :: string + (int \<Rightarrow> int \<Rightarrow> real))"
    if "x \<in> set [?h..cols img - ?h - 1]" and "y \<in> set [?h..rows img - ?h - 1]" for x y a
  proof -
    from that assms h have "0 \<le> x - ?h" "x - ?h + ?w \<le> cols img" "0 \<le> y - ?h" "y - ?h + ?w \<le> rows img"
      by auto
    with assms show ?thesis
      by (simp add: Mat_roi_def cv_meanStdDev_def empty_def)
  qed
  have row: "\<exists>b. fold (\<lambda>x acc.
          case acc of
            Inl e \<Rightarrow> Inl e
          | Inr frequency \<Rightarrow>
              (case Mat_roi img \<lparr>rect_x = x - ?h, rect_y = y - ?h, rect_width = ?w, rect_height = ?w\<rparr> of
                 Inl e \<Rightarrow> Inl e
               | Inr block \<Rightarrow>
                   (case cv_meanStdDev u8 block of
                      Inl e \<Rightarrow> Inl e
                    | Inr mean_stddev \<Rightarrow>
                        Inr (frequency(y := (frequency y)(x := snd mean_stddev / 255))))))
          [?h..cols img - ?h - 1] (Inr a) = (Inr b :: string + (int \<Rightarrow> int \<Rightarrow> real))"
    if "y \<in> set [?h..rows img - ?h - 1]" for y a
    by (rule fold_Inr) (rule cell [OF _ that])
  have "\<exists>b. fold (\<lambda>y acc. fold (\<lambda>x acc.
          case acc of
            Inl e \<Rightarrow> Inl e
          | Inr frequency \<Rightarrow>
              (case Mat_roi img \<lparr>rect_x = x - ?h, rect_y = y - ?h, rect_width = ?w, rect_height = ?w\<rparr> of
                 Inl e \<Rightarrow> Inl e
               | Inr block \<Rightarrow>
                   (case cv_meanStdDev u8 block of
                      Inl e \<Rightarrow> Inl e
                    | Inr mean_stddev \<Rightarrow>
                        Inr (frequency(y := (frequency y)(x := snd mean_stddev / 255))))))
          [?h..cols img - ?h - 1] acc)
        [?h..rows img - ?h - 1] (Inr (\<lambda>_ _. 0)) = (Inr b :: string + (int \<Rightarrow> int \<Rightarrow> real))"
    by (rule fold_Inr) (rule row)
  then show ?thesis
    unfolding compute_ridge_frequency_def Let_def by auto
qed

subsection \<open>How the try block ends\<close>

lemma failure_message_distinct:
  "failure_message lib m \<Longrightarrow> m \<noteq> '''' \<and> m \<noteq> ''Failed to extract valid ROI''"
  unfolding failure_message_def by (elim disjE exE) simp_all

lemma failure_message_exception:
  "failure_message lib (''Exception during processing: '' @ e)"
  unfolding failure_message_def by simp

lemma try_block_outcome:
  assumes "try_block lib avx2 p stats img fname idx elapsed result = Some (out, st)"
    and "\<not> success result"
  shows "case out of
      Returned r \<Rightarrow> \<not> success r \<and> core_points r = core_points result \<and>
        failure_message lib (error_message r)
    | Completed r \<Rightarrow> success r \<and> error_message r = error_message result \<and>
        (\<exists>best. core_points r = core_points result @ [best] \<and> min_confidence p \<le> confidence best \<and>
            extracted_roi r = extract_roi_around_point img best fname idx)
    | Thrown e r \<Rightarrow> \<not> success r \<and> core_points r = core_points result"
  using assms
  by (auto simp: try_block_def Let_def validate_roi_size_def failure_message_def
      split: sum.splits option.splits if_splits prod.splits)

lemma try_block_terminates:
  assumes "2 \<le> block_size p"
  shows "\<exists>out st. try_block lib avx2 p stats img fname idx elapsed result = Some (out, st)"
proof -
  have ends: "(detect_core_candidates p orientation_field frequency_field = None) = False"
    for orientation_field frequency_field
    using detect_core_candidates_terminates [OF assms, of orientation_field frequency_field]
    by auto
  show ?thesis
    unfolding try_block_def Let_def
    by (simp add: ends split: sum.split option.split prod.split)
qed

subsection \<open>What \<open>detect_core_point\<close> returns\<close>

lemma detect_core_point_early:
  assumes "empty img \<or> channels img \<noteq> 1 \<or> rows img < 101 \<or> cols img < 101"
    and "detect_core_point lib avx2 p stats img fname idx elapsed = Some (r, st)"
  shows "\<not> success r \<and> core_points r = [] \<and> failure_message lib (error_message r) \<and> st = stats"
  using assms
  by (auto simp: detect_core_point_def Let_def DetectionResult0_def failure_message_def
      split: if_splits)

lemma detect_core_point_outcome:
  assumes "detect_core_point lib avx2 p stats img fname idx elapsed = Some (r, st)"
  shows "(\<not> success r \<and> core_points r = [] \<and> failure_message lib (error_message r))
       \<or> (success r \<and> error_message r = '''' \<and>
            (\<exists>best. core_points r = [best] \<and> min_confidence p \<le> confidence best \<and>
               extracted_roi r = extract_roi_around_point img best fname idx))"
proof (cases "empty img \<or> channels img \<noteq> 1 \<or> rows img < 101 \<or> cols img < 101")
  case True
  from detect_core_point_early [OF this assms] show ?thesis
    by simp
next
  case False
  let ?result = "DetectionResult0\<lparr>success := False\<rparr>"
  from False assms obtain out st1 where
    tb: "try_block lib avx2 p stats img fname idx elapsed ?result = Some (out, st1)"
    by (auto simp: detect_core_point_def Let_def split: option.splits)
  have init: "\<not> success ?result" "core_points ?result = []" "error_message ?result = ''''"
    by (simp_all add: DetectionResult0_def)
  note oc = try_block_outcome [OF tb init(1)]
  show ?thesis
  proof (cases out)
    case (Returned r')
    with False assms tb have "r = r'"
      by (simp add: detect_core_point_def Let_def)
    with oc Returned init show ?thesis
      by simp
  next
    case (Completed r')
    with False assms tb have "r = r'\<lparr>processing_time_us := elapsed\<rparr>"
      by (simp add: detect_core_point_def Let_def)
    with oc Completed init show ?thesis
      by simp
  next
    case (Thrown e r')
    with False assms tb
    have "r = r'\<lparr>error_message := ''Exception during processing: '' @ e, processing_time_us := elapsed\<rparr>"
      by (simp add: detect_core_point_def Let_def)
    with oc Thrown init failure_message_exception [of lib e] show ?thesis
      by simp
  qed
qed

lemma detect_core_point_terminates:
  assumes "2 \<le> block_size p"
  shows "\<exists>r st. detect_core_point lib avx2 p stats img fname idx elapsed = Some (r, st)"
proof -
  let ?result = "DetectionResult0\<lparr>success := False\<rparr>"
  from try_block_terminates [OF assms] obtain out st1 where
    "try_block lib avx2 p stats img fname idx elapsed ?result = Some (out, st1)"
    by blast
  then show ?thesis
    by (cases out) (simp_all add: detect_core_point_def Let_def)
qed

lemma extract_roi_all_rows:
  "\<forall>row \<in> set (pixels (extract_roi_around_point img c fname idx)). length row = 101"
proof
  fix row
  assume "row \<in> set (pixels (extract_roi_around_point img c fname idx))"
  then obtain y where "y < 101" and "row = pixels (extract_roi_around_point img c fname idx) ! y"
    by (auto simp: in_set_conv_nth extract_roi_rows)
  then show "length row = 101"
    by (simp add: extract_roi_cols)
qed

text \<open>
  The shape of a result. For every image, so for every single-channel image of at least
  101 x 101 pixels, every result that \<open>detect_core_point\<close> returns is either a success
  with a ROI of 101 rows of 101 pixels and a stored core point whose confidence is at
  least \<open>min_confidence\<close>, or a failure with a non-empty error message; a success is
  never without a core point.
  The call returns whenever the block size is at least 2, that is, whenever the stride
  of the candidate search is positive.
\<close>

theorem detect_core_point_result_shape:
  shows "(2 \<le> block_size p \<longrightarrow>
            (\<exists>r st. detect_core_point lib avx2 p stats img fname idx elapsed = Some (r, st)))
       \<and> (\<forall>r st. detect_core_point lib avx2 p stats img fname idx elapsed = Some (r, st) \<longrightarrow>
            (success r \<and> length (pixels (extracted_roi r)) = 101 \<and>
               (\<forall>row \<in> set (pixels (extracted_roi r)). length row = 101) \<and>
               core_points r \<noteq> [] \<and>
               (\<forall>c \<in> set (core_points r). min_confidence p \<le> confidence c))
          \<or> (\<not> success r \<and> error_message r \<noteq> ''''))"
proof (intro conjI impI allI)
  assume "2 \<le> block_size p"
  then show "\<exists>r st. detect_core_point lib avx2 p stats img fname idx elapsed = Some (r, st)"
    by (rule detect_core_point_terminates)
next
  fix r st
  assume "detect_core_point lib avx2 p stats img fname idx elapsed = Some (r, st)"
  from detect_core_point_outcome [OF this]
  show "(success r \<and> length (pixels (extracted_roi r)) = 101 \<and>
           (\<forall>row \<in> set (pixels (extracted_roi r)). length row = 101) \<and>
           core_points r \<noteq> [] \<and>
           (\<forall>c \<in> set (core_points r). min_confidence p \<le> confidence c))
      \<or> (\<not> success r \<and> error_message r \<noteq> '''')"
    using extract_roi_all_rows by (auto simp: extract_roi_rows dest: failure_message_distinct)
qed

text \<open>An instance: the default parameters and a 200 x 200 image.\<close>

theorem detect_core_point_result_shape_witness:
  "\<exists>r st. detect_core_point stub_library False DetectionParams0 ProcessingStats0
            (flat_image 200 200 128) ''f.bmp'' 0 7 = Some (r, st)
     \<and> ((success r \<and> length (pixels (extracted_roi r)) = 101 \<and>
           (\<forall>row \<in> set (pixels (extracted_roi r)). length row = 101) \<and>
           core_points r \<noteq> [] \<and>
           (\<forall>c \<in> set (core_points r). min_confidence DetectionParams0 \<le> confidence c))
        \<or> (\<not> success r \<and> error_message r \<noteq> ''''))"
proof -
  have "2 \<le> block_size DetectionParams0"
    by (simp add: DetectionParams0_def)
  with detect_core_point_result_shape [of DetectionParams0 stub_library False ProcessingStats0
      "flat_image 200 200 128" "''f.bmp''" 0 7]
  show ?thesis
    by blast
qed

text \<open>
  With the block size 1 the stride \<open>window_size / 2\<close> of the candidate search is 0, and
  the window of a grid position is the position alone, so that no candidate is stored.
  Whenever such a call passes the quality gate and computes the orientation field, it
  stays at the first grid position of the search.
\<close>

lemma compute_orientation_field_size:
  "compute_orientation_field lib avx2 p st img = Inr (field, st') \<Longrightarrow>
   rows field = rows img \<and> cols field = cols img"
  by (auto simp: compute_orientation_field_def split: sum.splits prod.splits if_splits)

lemma block_size_one_never_returns:
  assumes "block_size p = 1" and "channels img = 1" and "101 \<le> rows img" and "101 \<le> cols img"
    and pre: "preprocess_image lib p img = Inr pre" and "2 < rows pre" and "2 < cols pre"
    and quality: "\<not> assess_image_quality pre < 0.2"
    and cof: "compute_orientation_field lib avx2 p stats pre = Inr (field, stats1)"
  shows "detect_core_point lib avx2 p stats img fname idx elapsed = None"
proof -
  from assms have img: "\<not> empty img" "\<not> rows img < 101" "\<not> cols img < 101"
    by (auto simp: empty_def)
  from compute_orientation_field_size [OF cof] assms have dims: "2 < rows field" "2 < cols field"
    by simp_all
  from assms obtain frequency where
    crf: "compute_ridge_frequency p pre = Inr \<lparr>rows = rows pre, cols = cols pre, channels = 1, mat_at = frequency\<rparr>"
    using compute_ridge_frequency_returns [of p pre] by auto
  have "detect_core_candidates p field \<lparr>rows = rows pre, cols = cols pre, channels = 1, mat_at = frequency\<rparr> = None"
    using assms(1) dims by (rule detect_core_candidates_diverges)
  with img assms(2) pre quality cof crf show ?thesis
    by (simp add: detect_core_point_def try_block_def Let_def)
qed

text \<open>
  C1. A single-channel image of 200 x 200 pixels for which \<open>detect_core_point\<close> returns
  no result at all. The constructor adjusts the two kernel sizes and stores every block
  size as it is given. With the block size 1, on an image whose left half is black and
  whose right half is white, the quality gate is passed, the frequency estimate succeeds,
  and the search loop never leaves its first grid position.
\<close>

theorem stride_zero_never_returns:
  "block_size (CorePointDetector False (DetectionParams0\<lparr>block_size := 1\<rparr>)) = 1
   \<and> detect_core_point stub_library False (CorePointDetector False (DetectionParams0\<lparr>block_size := 1\<rparr>))
       ProcessingStats0 (split_image 200 200 100 0 255) ''f.bmp'' 0 7 = None"
proof -
  let ?p = "CorePointDetector False (DetectionParams0\<lparr>block_size := 1\<rparr>)"
    and ?img = "split_image 200 200 100 0 255"
  have p: "?p = DetectionParams0\<lparr>block_size := 1, use_simd := False\<rparr>"
    by (simp add: CorePointDetector_def DetectionParams0_def check_simd_support_def)
  have bs: "block_size ?p = 1"
    by (simp add: p)
  have img: "channels ?img = 1" "101 \<le> rows ?img" "101 \<le> cols ?img" "2 < rows ?img" "2 < cols ?img"
    by (simp_all add: split_image_def)
  have pre: "preprocess_image stub_library ?p ?img = Inr ?img"
    by (simp add: preprocess_image_def stub_library_def)
  obtain field where
    cof: "compute_orientation_field stub_library False ?p ProcessingStats0 ?img = Inr (field, ProcessingStats0)"
    by (simp add: p compute_orientation_field_def compute_gradients_scalar_def check_simd_support_def
        stub_library_def)
  from block_size_one_never_returns [OF bs img(1,2,3) pre img(4,5) split_image_quality cof] bs
  show ?thesis
    by simp
qed

lemma candidate_at_singular:
  "candidate_at DetectionParams0 singular_field (flat_field 101 101 (1 / 2)) 16 16 [] =
     [\<lparr>cp_x = 16, cp_y = 16, confidence = 10 / 9\<rparr>]"
  by (simp add: candidate_at_def DetectionParams0_def singular_field_def flat_field_def c_div_def
      dy_loop.simps dx_loop.simps sample_orientation_def M_PI_def Let_def)

text \<open>
  C5. A candidate that \<open>detect_core_candidates\<close> emits with a confidence above 1:
  with the default parameters, the orientation field \<open>singular_field\<close> and the local
  frequency \<open>1/2\<close> everywhere, the first candidate has confidence \<open>10/9\<close>, which the
  detector's own range check \<open>validate_core_point_range\<close> refuses.
\<close>

theorem candidate_confidence_exceeds_one:
  "\<exists>rest. detect_core_candidates DetectionParams0 singular_field (flat_field 101 101 (1 / 2)) =
       Some (\<lparr>cp_x = 16, cp_y = 16, confidence = 10 / 9\<rparr> # rest)
   \<and> \<not> validate_core_point_range \<lparr>cp_x = 16, cp_y = 16, confidence = 10 / 9\<rparr>"
proof -
  let ?p = DetectionParams0 and ?O = singular_field and ?F = "flat_field 101 101 (1 / 2)"
  let ?c = "\<lparr>cp_x = 16, cp_y = 16, confidence = 10 / 9\<rparr>"
  have step: "0 < c_div (block_size ?p) 2" and bs: "block_size ?p = 16" "c_div 16 2 = 8"
    by (simp_all add: DetectionParams0_def c_div_def)
  have dims: "rows ?O = 101" "cols ?O = 101"
    by (simp_all add: singular_field_def)
  from x_loop_extends [OF step] obtain rest1 where
    "x_loop ?p ?O ?F 16 24 [?c] = Some ([?c] @ rest1)"
    by blast
  then have x: "x_loop ?p ?O ?F 16 16 [] = Some (?c # rest1)"
    by (subst x_loop.simps) (simp add: bs dims candidate_at_singular)
  from y_loop_extends [OF step] obtain rest2 where
    "y_loop ?p ?O ?F 24 (?c # rest1) = Some ((?c # rest1) @ rest2)"
    by blast
  with x have "y_loop ?p ?O ?F 16 [] = Some (?c # (rest1 @ rest2))"
    by (subst y_loop.simps) (simp add: bs dims)
  then show ?thesis
    by (simp add: detect_core_candidates_def bs validate_core_point_range_def)
qed

text \<open>
  C3. The input that is rejected first: for an empty image \<open>detect_core_point\<close> returns
  the failure and leaves the statistics as they were, where \<open>update_stats\<close> would have
  counted the image.
\<close>

theorem early_rejection_skips_update_stats:
  "detect_core_point lib avx2 p stats (flat_image 0 0 0) fname idx elapsed =
     Some (DetectionResult0\<lparr>error_message := ''Input image is empty''\<rparr>, stats)
   \<and> total_images_processed (update_stats stats r) = total_images_processed stats + 1"
  by (simp add: detect_core_point_def flat_image_def empty_def DetectionResult0_def update_stats_def Let_def)

text \<open>
  C10. \<open>validate_roi_size\<close> is true of every ROI, and no result of
  \<open>detect_core_point\<close> carries the message of the size check that follows the
  extraction.
\<close>

theorem roi_size_failure_unreachable:
  "validate_roi_size roi
   \<and> (\<forall>r st. detect_core_point lib avx2 p stats img fname idx elapsed = Some (r, st) \<longrightarrow>
         error_message r \<noteq> ''Failed to extract valid ROI'')"
proof (intro conjI allI impI)
  show "validate_roi_size roi"
    by (simp add: validate_roi_size_def)
next
  fix r st
  assume "detect_core_point lib avx2 p stats img fname idx elapsed = Some (r, st)"
  from detect_core_point_outcome [OF this]
  show "error_message r \<noteq> ''Failed to extract valid ROI''"
    by (auto dest: failure_message_distinct)
qed

text \<open>An instance: the result for a 3 x 2 image, which is too small.\<close>

theorem roi_size_failure_unreachable_witness:
  "\<exists>r st. detect_core_point stub_library False DetectionParams0 ProcessingStats0
            small_image ''f.bmp'' 0 7 = Some (r, st)
     \<and> error_message r \<noteq> ''Failed to extract valid ROI''"
proof -
  have "\<exists>r st. detect_core_point stub_library False DetectionParams0 ProcessingStats0
            small_image ''f.bmp'' 0 7 = Some (r, st)"
    by (simp add: detect_core_point_def small_image_def empty_def Let_def)
  with roi_size_failure_unreachable [of _ stub_library False DetectionParams0 ProcessingStats0
      small_image "''f.bmp''" 0 7]
  show ?thesis
    by blast
qed

section \<open>Properties of the batch detection\<close>

lemma compute_orientation_field_cases:
  "(\<exists>e. \<forall>st. compute_orientation_field lib avx2 p st img = Inl e)
   \<or> (\<exists>field. \<forall>st. \<exists>st'. compute_orientation_field lib avx2 p st img = Inr (field, st'))"
  by (auto simp: compute_orientation_field_def compute_gradients_simd_def compute_gradients_scalar_def
      split: sum.splits prod.splits)

lemma try_block_stats:
  "map_option fst (try_block lib avx2 p st img fname idx elapsed result) =
   map_option fst (try_block lib avx2 p st2 img fname idx elapsed result)"
proof (cases "preprocess_image lib p img")
  case (Inl e)
  then show ?thesis
    by (simp add: try_block_def)
next
  case (Inr pre)
  from compute_orientation_field_cases [of lib avx2 p pre]
  show ?thesis
  proof (elim disjE exE)
    fix e
    assume "\<forall>st. compute_orientation_field lib avx2 p st pre = Inl e"
    then have "compute_orientation_field lib avx2 p st pre = Inl e"
      and "compute_orientation_field lib avx2 p st2 pre = Inl e"
      by simp_all
    with Inr show ?thesis
      by (simp add: try_block_def Let_def)
  next
    fix field
    assume "\<forall>st. \<exists>st'. compute_orientation_field lib avx2 p st pre = Inr (field, st')"
    then obtain s1 s2 where "compute_orientation_field lib avx2 p st pre = Inr (field, s1)"
      and "compute_orientation_field lib avx2 p st2 pre = Inr (field, s2)"
      by metis
    with Inr show ?thesis
      by (simp add: try_block_def Let_def split: sum.split option.split)
  qed
qed

lemma detect_core_point_stats:
  "map_option fst (detect_core_point lib avx2 p st img fname idx elapsed) =
   map_option fst (detect_core_point lib avx2 p st2 img fname idx elapsed)"
proof -
  let ?result = "DetectionResult0\<lparr>success := False\<rparr>"
  from try_block_stats [of lib avx2 p st img fname idx elapsed ?result st2]
  show ?thesis
    unfolding detect_core_point_def Let_def
    by (auto split: option.splits outcome.splits prod.splits)
qed

lemma try_block_elapsed:
  "try_block lib avx2 p st img fname idx e result =
   map_option (\<lambda>(out, st'). (case out of
        Returned r \<Rightarrow> Returned (r\<lparr>processing_time_us := e\<rparr>)
      | Completed r \<Rightarrow> Completed r
      | Thrown m r \<Rightarrow> Thrown m r, st'))
     (try_block lib avx2 p st img fname idx e' result)"
  unfolding try_block_def Let_def
  by (simp split: sum.split option.split prod.split)

lemma detect_core_point_elapsed:
  "map_option (erase_time \<circ> fst) (detect_core_point lib avx2 p st img fname idx e) =
   map_option (erase_time \<circ> fst) (detect_core_point lib avx2 p st img fname idx e')"
proof (cases "try_block lib avx2 p st img fname idx e' (DetectionResult0\<lparr>success := False\<rparr>)")
  case None
  with try_block_elapsed [of lib avx2 p st img fname idx e "DetectionResult0\<lparr>success := False\<rparr>" e']
  show ?thesis
    by (simp add: detect_core_point_def Let_def)
next
  case (Some a)
  obtain out st1 where a: "a = (out, st1)"
    by (cases a) auto
  from Some try_block_elapsed [of lib avx2 p st img fname idx e "DetectionResult0\<lparr>success := False\<rparr>" e']
  show ?thesis
    unfolding a by (cases out) (simp_all add: detect_core_point_def Let_def erase_time_def)
qed

lemma batch_call_stats:
  "map_option fst (detect_core_point lib avx2 p st (images ! i)
       (if i < length filenames then filenames ! i else '''') (int i) (elapsed i)) =
   batch_call lib avx2 p images filenames elapsed i"
  unfolding batch_call_def by (rule detect_core_point_stats)

lemma batch_call_elapsed:
  "map_option erase_time (batch_call lib avx2 p images filenames elapsed i) =
   map_option erase_time (batch_call lib avx2 p images filenames elapsed' i)"
  using detect_core_point_elapsed [of lib avx2 p ProcessingStats0 "images ! i"
      "if i < length filenames then filenames ! i else ''''" "int i" "elapsed i" "elapsed' i"]
  by (simp add: batch_call_def option.map_comp)

lemma batch_call_terminates:
  "2 \<le> block_size p \<Longrightarrow> batch_call lib avx2 p images filenames elapsed i \<noteq> None"
  using detect_core_point_terminates [of p lib avx2 ProcessingStats0 "images ! i"
      "if i < length filenames then filenames ! i else ''''" "int i" "elapsed i"]
  by (auto simp: batch_call_def)

lemma sequential_loop_results:
  "map_option fst (sequential_loop lib avx2 p images filenames elapsed js acc) =
     (if \<forall>i \<in> set js. batch_call lib avx2 p images filenames elapsed i \<noteq> None
      then Some (fst acc @ map (\<lambda>i. the (batch_call lib avx2 p images filenames elapsed i)) js)
      else None)"
proof (induction js arbitrary: acc)
  case Nil
  show ?case by simp
next
  case (Cons i js)
  let ?call = "detect_core_point lib avx2 p (snd acc) (images ! i)
       (if i < length filenames then filenames ! i else '''') (int i) (elapsed i)"
  note bc = batch_call_stats [of lib avx2 p "snd acc" images i filenames elapsed]
  show ?case
  proof (cases ?call)
    case None
    with bc have "batch_call lib avx2 p images filenames elapsed i = None"
      by simp
    with None show ?thesis
      by (simp add: Let_def)
  next
    case (Some a)
    obtain r st' where a: "a = (r, st')"
      by (cases a) auto
    from Some bc have "batch_call lib avx2 p images filenames elapsed i = Some r"
      by (simp add: a)
    with Some Cons.IH [of "(fst acc @ [r], st')"] show ?thesis
      by (simp add: a Let_def)
  qed
qed

lemma launch_loop_futures:
  "launch_loop lib avx2 p images filenames elapsed js futures =
     futures @ map (\<lambda>i stats. detect_core_point lib avx2 p stats (images ! i)
                       (if i < length filenames then filenames ! i else '''') (int i) (elapsed i)) js"
  by (induction js arbitrary: futures) (simp_all add: Let_def)

lemma run_tasks_results:
  assumes "\<And>k st. k \<in> set ks \<Longrightarrow> map_option fst ((futures ! k) st) = call k"
  shows "case run_tasks futures ks acc of
      None \<Rightarrow> \<exists>k \<in> set ks. call k = None
    | Some (ready, st') \<Rightarrow>
        (\<forall>k \<in> set ks. call k \<noteq> None) \<and> (\<forall>i. ready i = (if i \<in> set ks then call i else fst acc i))"
  using assms
proof (induction ks arbitrary: acc)
  case Nil
  show ?case by (cases acc) simp
next
  case (Cons k ks)
  note fk = Cons.prems [of k "snd acc"]
  show ?case
  proof (cases "(futures ! k) (snd acc)")
    case None
    with fk have "call k = None"
      by simp
    with None show ?thesis
      by simp
  next
    case (Some a)
    obtain r st' where a: "a = (r, st')"
      by (cases a) auto
    from Some fk have ck: "call k = Some r"
      by (simp add: a)
    have "case run_tasks futures ks ((fst acc)(k := Some r), st') of
        None \<Rightarrow> \<exists>k \<in> set ks. call k = None
      | Some (ready, st'') \<Rightarrow>
          (\<forall>k \<in> set ks. call k \<noteq> None) \<and>
          (\<forall>i. ready i = (if i \<in> set ks then call i else fst ((fst acc)(k := Some r), st') i))"
      by (rule Cons.IH) (simp add: Cons.prems)
    with Some ck show ?thesis
      by (auto simp: a split: option.splits)
  qed
qed

lemma collect_loop_results:
  "collect_loop ready js results =
     (if \<forall>i \<in> set js. ready i \<noteq> None then Some (results @ map (\<lambda>i. the (ready i)) js) else None)"
  by (induction js arbitrary: results) (auto split: option.splits)

lemma detect_batch_results:
  assumes "parallel \<and> 1 < length images \<longrightarrow> set schedule = {..<length images}"
  shows "map_option fst (detect_batch lib avx2 p stats images filenames parallel elapsed schedule) =
     (if \<forall>i < length images. batch_call lib avx2 p images filenames elapsed i \<noteq> None
      then Some (map (\<lambda>i. the (batch_call lib avx2 p images filenames elapsed i)) [0..<length images])
      else None)"
proof (cases "parallel \<and> 1 < length images")
  case False
  have "map_option fst (sequential_loop lib avx2 p images filenames elapsed [0..<length images] ([], stats)) =
     (if \<forall>i < length images. batch_call lib avx2 p images filenames elapsed i \<noteq> None
      then Some (map (\<lambda>i. the (batch_call lib avx2 p images filenames elapsed i)) [0..<length images])
      else None)"
    unfolding sequential_loop_results by auto
  with False show ?thesis
    by (simp only: detect_batch_def if_False)
next
  case True
  let ?n = "length images"
  let ?call = "batch_call lib avx2 p images filenames elapsed"
  let ?futures = "map (\<lambda>i stats. detect_core_point lib avx2 p stats (images ! i)
                       (if i < length filenames then filenames ! i else '''') (int i) (elapsed i)) [0..<?n]"
  from True assms have sched: "set schedule = {..<?n}"
    by simp
  have fut: "launch_loop lib avx2 p images filenames elapsed [0..<?n] [] = ?futures"
    by (simp add: launch_loop_futures)
  have task: "map_option fst ((?futures ! k) st) = ?call k" if "k \<in> set schedule" for k st
  proof -
    from that sched have "k < ?n"
      by simp
    then have "?futures ! k = (\<lambda>stats. detect_core_point lib avx2 p stats (images ! k)
        (if k < length filenames then filenames ! k else '''') (int k) (elapsed k))"
      by simp
    then show ?thesis
      by (simp only: batch_call_stats)
  qed
  note rt = run_tasks_results [of schedule ?futures ?call "(\<lambda>_. None, stats)", OF task]
  show ?thesis
  proof (cases "run_tasks ?futures schedule (\<lambda>_. None, stats)")
    case None
    with rt sched have "\<exists>k < ?n. ?call k = None"
      by auto
    then have "\<not> (\<forall>i < ?n. ?call i \<noteq> None)"
      by blast
    with None True show ?thesis
      by (simp add: detect_batch_def fut del: map_map)
  next
    case (Some a)
    obtain ready st' where a: "a = (ready, st')"
      by (cases a) auto
    from Some rt sched have all: "\<forall>k < ?n. ?call k \<noteq> None"
      and ready: "\<And>i. i < ?n \<Longrightarrow> ready i = ?call i"
      by (auto simp: a)
    from all ready have "\<forall>i \<in> set [0..<?n]. ready i \<noteq> None"
      by simp
    moreover from ready have "map (\<lambda>i. the (ready i)) [0..<?n] = map (\<lambda>i. the (?call i)) [0..<?n]"
      by simp
    ultimately have "collect_loop ready [0..<?n] [] = Some (map (\<lambda>i. the (?call i)) [0..<?n])"
      by (simp add: collect_loop_results)
    with Some True all show ?thesis
      by (simp add: detect_batch_def fut a del: map_map)
  qed
qed

lemma flat_image_call:
  "detect_core_point stub_library False DetectionParams0 st (flat_image 200 200 128) fname idx e =
     Some (DetectionResult0\<lparr>overall_quality := 0,
             error_message := ''Image quality too low for processing'',
             processing_time_us := e\<rparr>, st)"
proof -
  have "constant_image (flat_image 200 200 128)"
    unfolding constant_image_def flat_image_def by (rule exI [of _ 128]) simp
  then have q: "assess_image_quality (flat_image 200 200 128) = 0"
    by (rule assess_image_quality_constant)
  have "preprocess_image stub_library DetectionParams0 (flat_image 200 200 128) = Inr (flat_image 200 200 128)"
    by (simp add: preprocess_image_def stub_library_def)
  from quality_gate_result [OF _ _ _ this, of False st fname idx e] q show ?thesis
    by (simp add: flat_image_def)
qed

text \<open>
  Two runs of a batch of two 200 x 200 images of one intensity, which fail at the quality
  gate: the parallel run, whose tasks finish in the order 1, 0 and whose timer reads 7
  microseconds for each call, and the sequential run, whose timer reads 8 microseconds.
  Both return two results, and the results differ in \<open>processing_time_us\<close>.
\<close>

theorem timer_reading_counterexample:
  "map_option (map processing_time_us \<circ> fst)
     (detect_batch stub_library False DetectionParams0 ProcessingStats0
        [flat_image 200 200 128, flat_image 200 200 128] [] True (\<lambda>i. 7) [1, 0]) = Some [7, 7]
   \<and> map_option (map processing_time_us \<circ> fst)
     (detect_batch stub_library False DetectionParams0 ProcessingStats0
        [flat_image 200 200 128, flat_image 200 200 128] [] False (\<lambda>i. 8) []) = Some [8, 8]
   \<and> map_option fst
     (detect_batch stub_library False DetectionParams0 ProcessingStats0
        [flat_image 200 200 128, flat_image 200 200 128] [] True (\<lambda>i. 7) [1, 0]) \<noteq>
     map_option fst
     (detect_batch stub_library False DetectionParams0 ProcessingStats0
        [flat_image 200 200 128, flat_image 200 200 128] [] False (\<lambda>i. 8) [])"
proof -
  have two: "[0..<2] = [0, 1]"
    by (simp add: upt_rec)
  have par: "detect_batch stub_library False DetectionParams0 ProcessingStats0
        [flat_image 200 200 128, flat_image 200 200 128] [] True (\<lambda>i. 7) [1, 0] =
      Some ([DetectionResult0\<lparr>overall_quality := 0,
               error_message := ''Image quality too low for processing'', processing_time_us := 7\<rparr>,
             DetectionResult0\<lparr>overall_quality := 0,
               error_message := ''Image quality too low for processing'', processing_time_us := 7\<rparr>],
            ProcessingStats0)"
    by (simp add: detect_batch_def two Let_def flat_image_call)
  have seq: "detect_batch stub_library False DetectionParams0 ProcessingStats0
        [flat_image 200 200 128, flat_image 200 200 128] [] False (\<lambda>i. 8) [] =
      Some ([DetectionResult0\<lparr>overall_quality := 0,
               error_message := ''Image quality too low for processing'', processing_time_us := 8\<rparr>,
             DetectionResult0\<lparr>overall_quality := 0,
               error_message := ''Image quality too low for processing'', processing_time_us := 8\<rparr>],
            ProcessingStats0)"
    by (simp add: detect_batch_def two Let_def flat_image_call)
  show ?thesis
    unfolding par seq by (simp add: DetectionResult0_def)
qed

text \<open>
  C9, amended. A batch that returns gives one result per image, in the order of the
  images: result \<open>i\<close> is the result of \<open>detect_core_point\<close> for image \<open>i\<close>, with the file
  name \<open>filenames[i]\<close> when \<open>i < filenames.size()\<close> and the empty name otherwise, and with
  index \<open>i\<close>, whatever the statistics of the detector are at that moment. For every order
  in which the tasks of the parallel branch run, the parallel and the sequential batch
  return the same list of results when the timer readings are the same, and lists that
  agree in everything but \<open>processing_time_us\<close> when they are not; or both do not return.
  A batch returns whenever the block size is at least 2.
\<close>

theorem detect_batch_ordered:
  assumes "set schedule = {..<length images}"
  shows "(\<forall>results st'.
        detect_batch lib avx2 p stats images filenames parallel elapsed schedule = Some (results, st') \<longrightarrow>
        length results = length images \<and>
        (\<forall>i < length images. \<forall>st.
            map_option fst (detect_core_point lib avx2 p st (images ! i)
                (if i < length filenames then filenames ! i else '''') (int i) (elapsed i)) =
            Some (results ! i)))
   \<and> map_option fst (detect_batch lib avx2 p stats images filenames True elapsed schedule) =
     map_option fst (detect_batch lib avx2 p stats images filenames False elapsed schedule')
   \<and> map_option (map erase_time \<circ> fst)
       (detect_batch lib avx2 p stats images filenames True elapsed schedule) =
     map_option (map erase_time \<circ> fst)
       (detect_batch lib avx2 p stats images filenames False elapsed' schedule')
   \<and> (2 \<le> block_size p \<longrightarrow>
        (\<exists>results st'.
           detect_batch lib avx2 p stats images filenames parallel elapsed schedule = Some (results, st')))"
proof -
  have any: "b \<and> 1 < length images \<longrightarrow> set schedule = {..<length images}" for b
    using assms by simp
  have never: "False \<and> 1 < length images \<longrightarrow> set schedule' = {..<length images}"
    by simp
  note par = detect_batch_results [of True images schedule lib avx2 p stats filenames, OF any]
    and seq = detect_batch_results [of False images schedule' lib avx2 p stats filenames, OF never]
  show ?thesis
  proof (intro conjI allI impI)
  fix results st'
  assume ret: "detect_batch lib avx2 p stats images filenames parallel elapsed schedule = Some (results, st')"
  from detect_batch_results [of parallel images schedule lib avx2 p stats filenames elapsed, OF any] ret
  have all: "\<forall>i < length images. batch_call lib avx2 p images filenames elapsed i \<noteq> None"
    and res: "results = map (\<lambda>i. the (batch_call lib avx2 p images filenames elapsed i)) [0..<length images]"
    by (simp_all split: if_splits)
  from res show "length results = length images"
    by simp
  fix i st
  assume i: "i < length images"
  with all res have "batch_call lib avx2 p images filenames elapsed i = Some (results ! i)"
    by auto
  then show "map_option fst (detect_core_point lib avx2 p st (images ! i)
                (if i < length filenames then filenames ! i else '''') (int i) (elapsed i)) =
            Some (results ! i)"
    by (simp only: batch_call_stats)
next
  show "map_option fst (detect_batch lib avx2 p stats images filenames True elapsed schedule) =
     map_option fst (detect_batch lib avx2 p stats images filenames False elapsed schedule')"
    by (simp only: par seq)
next
  let ?call = "batch_call lib avx2 p images filenames elapsed"
    and ?call' = "batch_call lib avx2 p images filenames elapsed'"
  note e = batch_call_elapsed [of lib avx2 p images filenames elapsed _ elapsed']
  have none: "(?call i = None) = (?call' i = None)" for i
    using e [of i] by (cases "?call i"; cases "?call' i") simp_all
  have some: "erase_time (the (?call i)) = erase_time (the (?call' i))" if "?call i \<noteq> None" for i
    using e [of i] that by (cases "?call i"; cases "?call' i") simp_all
  have "map_option (map erase_time)
      (if \<forall>i < length images. ?call i \<noteq> None
       then Some (map (\<lambda>i. the (?call i)) [0..<length images]) else None) =
     map_option (map erase_time)
      (if \<forall>i < length images. ?call' i \<noteq> None
       then Some (map (\<lambda>i. the (?call' i)) [0..<length images]) else None)"
    by (simp add: none some)
  then show "map_option (map erase_time \<circ> fst)
       (detect_batch lib avx2 p stats images filenames True elapsed schedule) =
     map_option (map erase_time \<circ> fst)
       (detect_batch lib avx2 p stats images filenames False elapsed' schedule')"
    by (simp only: option.map_comp [symmetric] par seq)
next
  assume "2 \<le> block_size p"
  then have "\<forall>i < length images. batch_call lib avx2 p images filenames elapsed i \<noteq> None"
    by (simp add: batch_call_terminates)
  with detect_batch_results [of parallel images schedule lib avx2 p stats filenames elapsed, OF any]
  have "map_option fst (detect_batch lib avx2 p stats images filenames parallel elapsed schedule) =
      Some (map (\<lambda>i. the (batch_call lib avx2 p images filenames elapsed i)) [0..<length images])"
    by simp
  then show "\<exists>results st'.
      detect_batch lib avx2 p stats images filenames parallel elapsed schedule = Some (results, st')"
    by (cases "detect_batch lib avx2 p stats images filenames parallel elapsed schedule") auto
  qed
qed

text \<open>
  An instance: a parallel batch of two images with one file name, whose tasks run in
  the order 1, 0. The first result is that of the call with the name \<open>a.bmp\<close> and the
  index 0, the second that of the call with the empty name and the index 1.
\<close>

theorem detect_batch_ordered_witness:
  "\<exists>results st'.
      detect_batch stub_library False DetectionParams0 ProcessingStats0
        [flat_image 200 200 128, split_image 200 200 100 0 255] [''a.bmp''] True (\<lambda>i. 7) [1, 0] =
      Some (results, st')
    \<and> length results = 2
    \<and> map_option fst (detect_core_point stub_library False DetectionParams0 ProcessingStats0
          (flat_image 200 200 128) ''a.bmp'' 0 7) = Some (results ! 0)
    \<and> map_option fst (detect_core_point stub_library False DetectionParams0 ProcessingStats0
          (split_image 200 200 100 0 255) '''' 1 7) = Some (results ! 1)"
proof -
  let ?images = "[flat_image 200 200 128, split_image 200 200 100 0 255]"
  have sched: "set [1, 0] = {..<length ?images}"
    by auto
  have bs: "2 \<le> block_size DetectionParams0"
    by (simp add: DetectionParams0_def)
  note t = detect_batch_ordered [OF sched, of stub_library False DetectionParams0 ProcessingStats0
      "[''a.bmp'']" True "\<lambda>i. 7"]
  from t bs obtain results st' where
    ret: "detect_batch stub_library False DetectionParams0 ProcessingStats0 ?images [''a.bmp''] True
        (\<lambda>i. 7) [1, 0] = Some (results, st')"
    by blast
  with t have len: "length results = length ?images"
    and each: "\<And>i st. i < length ?images \<Longrightarrow>
        map_option fst (detect_core_point stub_library False DetectionParams0 st (?images ! i)
          (if i < length [''a.bmp''] then [''a.bmp''] ! i else '''') (int i) 7) = Some (results ! i)"
    by blast+
  from each [of 0 ProcessingStats0] each [of 1 ProcessingStats0] len ret show ?thesis
    by simp
qed

section \<open>Properties of the image cache\<close>

lemma cleanup_within_budget: "within_budget (cleanup_cache_if_needed s)"
proof (induction s rule: cleanup_cache_if_needed.induct)
  case (1 s)
  show ?case
  proof (cases "current_cache_size s > max_cache_size_mb s * 1024 * 1024 \<and> image_cache s \<noteq> []")
    case True
    with "1" [OF refl] show ?thesis
      by (subst cleanup_cache_if_needed.simps) (simp add: Let_def)
  next
    case False
    then show ?thesis
      by (subst cleanup_cache_if_needed.simps) (auto simp: Let_def within_budget_def not_less)
  qed
qed

lemma fold_oldest_minimal:
  "last_accessed (snd (fold (\<lambda>it oldest. if last_accessed (snd it) < last_accessed (snd oldest) then it else oldest) xs e))
     \<le> last_accessed (snd e) \<and>
   (\<forall>e' \<in> set xs.
      last_accessed (snd (fold (\<lambda>it oldest. if last_accessed (snd it) < last_accessed (snd oldest) then it else oldest) xs e))
        \<le> last_accessed (snd e'))"
proof (induction xs arbitrary: e)
  case Nil
  show ?case by simp
next
  case (Cons x xs)
  let ?e = "if last_accessed (snd x) < last_accessed (snd e) then x else e"
  from Cons [of ?e] show ?case
    by (auto simp: le_less_trans dest: order_trans)
qed

lemma oldest_entry_minimal:
  "e' \<in> set cache \<Longrightarrow> last_accessed (snd (oldest_entry cache)) \<le> last_accessed (snd e')"
  using fold_oldest_minimal [of cache "hd cache"] by (simp add: oldest_entry_def)

lemma delete_one_entry:
  "distinct (map fst al) \<Longrightarrow> e \<in> set al \<Longrightarrow> length (AList.delete (fst e) al) + 1 = length al"
proof (induction al)
  case Nil
  then show ?case by simp
next
  case (Cons a al)
  show ?case
  proof (cases "fst a = fst e")
    case True
    with Cons.prems have "fst e \<notin> fst ` set al"
      by simp
    then have "AList.delete (fst e) al = al"
      by (simp add: delete_id)
    with True show ?thesis
      by (cases a) (simp add: AList.delete_eq)
  next
    case False
    with Cons show ?thesis
      by (cases a) (auto simp: AList.delete_eq)
  qed
qed

lemma load_image_within_budget:
  assumes "within_budget s \<or>
      (use_cache \<and> map_of (image_cache s) (normalize_path env path) = None \<and>
       \<not> empty (imread env (normalize_path env path)))"
  shows "within_budget (snd (load_image env s path use_cache now))"
proof (cases "use_cache \<and> map_of (image_cache s) (normalize_path env path) = None \<and>
       \<not> empty (imread env (normalize_path env path))")
  case True
  then show ?thesis
    by (simp add: load_image_def Let_def cleanup_within_budget)
next
  case False
  with assms have wb: "within_budget s"
    by blast
  show ?thesis
  proof (cases "use_cache \<and> map_of (image_cache s) (normalize_path env path) \<noteq> None")
    case True
    then obtain entry where e: "map_of (image_cache s) (normalize_path env path) = Some entry"
      by blast
    then have "image_cache s \<noteq> []"
      by auto
    with wb e True show ?thesis
      by (simp add: load_image_def Let_def within_budget_def)
  next
    case False
    with \<open>\<not> (use_cache \<and> map_of (image_cache s) (normalize_path env path) = None \<and>
       \<not> empty (imread env (normalize_path env path)))\<close> wb
    show ?thesis
      by (auto simp: load_image_def Let_def within_budget_def)
  qed
qed

lemma load_sample:
  "load_image sample_storage FileManager0 ''a.bmp'' True 1 =
     (small_image,
      \<lparr>image_cache = [(''a.bmp'', \<lparr>image = small_image, filepath = ''a.bmp'', memory_size = 6, last_accessed = 1\<rparr>)],
       max_cache_size_mb = 256, current_cache_size = 6, cache_hits = 0, cache_misses = 1,
       warnings = [''Image may not be suitable for fingerprint processing: a.bmp'']\<rparr>)"
proof -
  have "\<not> empty small_image" "\<not> is_valid_fingerprint_image small_image"
    "calculate_image_memory_size small_image = 6"
    by (simp_all add: empty_def small_image_def is_valid_fingerprint_image_def calculate_image_memory_size_def)
  then show ?thesis
    by (simp add: load_image_def sample_storage_def FileManager0_def normalize_path_def Let_def
        cleanup_cache_if_needed.simps)
qed

lemma cleanup_distinct:
  "distinct (map fst (image_cache s)) \<Longrightarrow> distinct (map fst (image_cache (cleanup_cache_if_needed s)))"
proof (induction s rule: cleanup_cache_if_needed.induct)
  case (1 s)
  show ?case
  proof (cases "current_cache_size s > max_cache_size_mb s * 1024 * 1024 \<and> image_cache s \<noteq> []")
    case True
    from "1.prems" have "distinct (map fst (image_cache (remove_oldest_cache_entry s)))"
      by (simp add: remove_oldest_cache_entry_def Let_def distinct_delete)
    with True "1.IH" [OF refl] show ?thesis
      by (subst cleanup_cache_if_needed.simps) (simp add: Let_def)
  next
    case False
    with "1.prems" show ?thesis
      by (subst cleanup_cache_if_needed.simps) (auto simp: Let_def)
  qed
qed

lemma load_image_distinct:
  "distinct (map fst (image_cache s)) \<Longrightarrow>
   distinct (map fst (image_cache (snd (load_image env s path use_cache now))))"
  by (auto simp: load_image_def Let_def distinct_update cleanup_distinct split: option.splits)

lemma cleanup_warnings: "warnings (cleanup_cache_if_needed s) = warnings s"
proof (induction s rule: cleanup_cache_if_needed.induct)
  case (1 s)
  show ?case
  proof (cases "current_cache_size s > max_cache_size_mb s * 1024 * 1024 \<and> image_cache s \<noteq> []")
    case True
    with "1" [OF refl] show ?thesis
      by (subst cleanup_cache_if_needed.simps) (simp add: Let_def remove_oldest_cache_entry_def)
  next
    case False
    then show ?thesis
      by (subst cleanup_cache_if_needed.simps) (auto simp: Let_def)
  qed
qed

lemma sum_delete:
  fixes f :: "'a \<times> 'b \<Rightarrow> nat"
  assumes "distinct (map fst al)" and "map_of al k = Some v"
  shows "(\<Sum>e\<leftarrow>al. f e) = f (k, v) + (\<Sum>e\<leftarrow>AList.delete k al. f e)"
  using assms
proof (induction al)
  case Nil
  then show ?case by simp
next
  case (Cons a al)
  show ?case
  proof (cases "fst a = k")
    case True
    with Cons.prems have "k \<notin> fst ` set al" and a: "a = (k, v)"
      by (auto simp: prod_eq_iff)
    then have "AList.delete k al = al"
      by (simp add: delete_id)
    with a show ?thesis
      by simp
  next
    case False
    with Cons show ?thesis
      by (cases a) auto
  qed
qed

lemma update_absent: "map_of al k = None \<Longrightarrow> AList.update k v al = al @ [(k, v)]"
  by (induction al) auto

lemma sum_update_present:
  assumes "map_of al k = Some v" and "f (k, v') = f (k, v)"
  shows "(\<Sum>e\<leftarrow>AList.update k v' al. f e) = (\<Sum>e\<leftarrow>al. f e)"
  using assms by (induction al) (auto split: if_splits)

lemma entry_size_bound:
  assumes "accounted s" and "map_of (image_cache s) k = Some v"
  shows "memory_size v \<le> current_cache_size s"
proof -
  from assms have "unat (current_cache_size s) =
      unat (memory_size v) + (\<Sum>e\<leftarrow>AList.delete k (image_cache s). unat (memory_size (snd e)))"
    using sum_delete [of "image_cache s" k v "\<lambda>e. unat (memory_size (snd e))"]
    by (simp add: accounted_def)
  then show ?thesis
    by (simp add: word_le_nat_alt)
qed

lemma delete_entry_accounted:
  assumes "accounted s" and "map_of (image_cache s) k = Some v"
  shows "accounted (s\<lparr>current_cache_size := current_cache_size s - memory_size v,
                      image_cache := AList.delete k (image_cache s)\<rparr>)"
proof -
  from assms have sum: "unat (current_cache_size s) =
      unat (memory_size v) + (\<Sum>e\<leftarrow>AList.delete k (image_cache s). unat (memory_size (snd e)))"
    using sum_delete [of "image_cache s" k v "\<lambda>e. unat (memory_size (snd e))"]
    by (simp add: accounted_def)
  from entry_size_bound [OF assms]
  have "unat (current_cache_size s - memory_size v) = unat (current_cache_size s) - unat (memory_size v)"
    by (rule unat_sub)
  with sum have "unat (current_cache_size s - memory_size v) =
      (\<Sum>e\<leftarrow>AList.delete k (image_cache s). unat (memory_size (snd e)))"
    by linarith
  with assms(1) show ?thesis
    by (simp add: accounted_def distinct_delete)
qed

lemma delete_entry_within_budget:
  assumes "accounted s" and "map_of (image_cache s) k = Some v" and "within_budget s"
  shows "within_budget (s\<lparr>current_cache_size := current_cache_size s - memory_size v,
                           image_cache := AList.delete k (image_cache s)\<rparr>)"
proof -
  from assms(2) have "image_cache s \<noteq> []"
    by auto
  with assms(3) have le: "current_cache_size s \<le> max_cache_size_mb s * 1024 * 1024"
    by (simp add: within_budget_def)
  from entry_size_bound [OF assms(1,2)]
  have "unat (current_cache_size s - memory_size v) = unat (current_cache_size s) - unat (memory_size v)"
    by (rule unat_sub)
  then have "current_cache_size s - memory_size v \<le> current_cache_size s"
    by (simp add: word_le_nat_alt)
  from this le have "current_cache_size s - memory_size v \<le> max_cache_size_mb s * 1024 * 1024"
    by (rule order_trans)
  then show ?thesis
    by (simp add: within_budget_def)
qed

lemma oldest_entry_lookup:
  assumes "distinct (map fst (image_cache s))" and "image_cache s \<noteq> []"
  shows "map_of (image_cache s) (fst (oldest_entry (image_cache s))) = Some (snd (oldest_entry (image_cache s)))"
  using assms oldest_entry_in_cache [of "image_cache s"] by simp

lemma remove_oldest_accounted:
  assumes "accounted s"
  shows "accounted (remove_oldest_cache_entry s)"
proof (cases "image_cache s = []")
  case True
  with assms show ?thesis
    by (simp add: remove_oldest_cache_entry_def)
next
  case False
  from assms have "distinct (map fst (image_cache s))"
    by (simp add: accounted_def)
  from delete_entry_accounted [OF assms oldest_entry_lookup [OF this False]] False
  show ?thesis
    by (simp add: remove_oldest_cache_entry_def Let_def)
qed

lemma remove_oldest_total:
  assumes "accounted s"
  shows "current_cache_size (remove_oldest_cache_entry s) \<le> current_cache_size s"
proof (cases "image_cache s = []")
  case True
  then show ?thesis
    by (simp add: remove_oldest_cache_entry_def)
next
  case False
  from assms have "distinct (map fst (image_cache s))"
    by (simp add: accounted_def)
  from entry_size_bound [OF assms oldest_entry_lookup [OF this False]]
  have "unat (current_cache_size s - memory_size (snd (oldest_entry (image_cache s)))) =
      unat (current_cache_size s) - unat (memory_size (snd (oldest_entry (image_cache s))))"
    by (rule unat_sub)
  with False show ?thesis
    by (simp add: remove_oldest_cache_entry_def Let_def word_le_nat_alt)
qed

lemma cleanup_accounted:
  "accounted s \<Longrightarrow>
   accounted (cleanup_cache_if_needed s) \<and>
   current_cache_size (cleanup_cache_if_needed s) \<le> current_cache_size s"
proof (induction s rule: cleanup_cache_if_needed.induct)
  case (1 s)
  show ?case
  proof (cases "current_cache_size s > max_cache_size_mb s * 1024 * 1024 \<and> image_cache s \<noteq> []")
    case True
    from "1.prems" have acc: "accounted (remove_oldest_cache_entry s)"
      by (rule remove_oldest_accounted)
    from "1.IH" [OF refl True acc]
    have a: "accounted (cleanup_cache_if_needed (remove_oldest_cache_entry s))"
      and "current_cache_size (cleanup_cache_if_needed (remove_oldest_cache_entry s)) \<le>
           current_cache_size (remove_oldest_cache_entry s)"
      by simp_all
    from this(2) remove_oldest_total [OF "1.prems"]
    have "current_cache_size (cleanup_cache_if_needed (remove_oldest_cache_entry s)) \<le> current_cache_size s"
      by (rule order_trans)
    with a True show ?thesis
      by (subst (1 2) cleanup_cache_if_needed.simps) (simp add: Let_def)
  next
    case False
    with "1.prems" show ?thesis
      by (subst (1 2) cleanup_cache_if_needed.simps) (auto simp: Let_def)
  qed
qed

lemma load_image_accounted:
  assumes "accounted s"
    and "unat (current_cache_size s) +
         unat (calculate_image_memory_size (imread env (normalize_path env path))) < 2 ^ 64"
  shows "accounted (snd (load_image env s path use_cache now)) \<and>
     unat (current_cache_size (snd (load_image env s path use_cache now))) \<le>
       unat (current_cache_size s) +
       unat (calculate_image_memory_size (imread env (normalize_path env path)))"
proof (cases "use_cache")
  case False
  with assms(1) show ?thesis
    by (simp add: load_image_def Let_def accounted_def)
next
  case True
  let ?key = "normalize_path env path"
  let ?img = "imread env ?key"
  show ?thesis
  proof (cases "map_of (image_cache s) ?key")
    case (Some entry)
    from assms(1) True Some
      sum_update_present [of "image_cache s" ?key entry "\<lambda>e. unat (memory_size (snd e))" "entry\<lparr>last_accessed := now\<rparr>"]
    show ?thesis
      by (simp add: load_image_def Let_def accounted_def distinct_update)
  next
    case None
    show ?thesis
    proof (cases "empty ?img")
      case e: True
      with assms(1) True None show ?thesis
        by (simp add: load_image_def Let_def accounted_def)
    next
      case e: False
      let ?entry = "\<lparr>image = ?img, filepath = ?key, memory_size = calculate_image_memory_size ?img,
                      last_accessed = now\<rparr>"
      let ?s1 = "s\<lparr>cache_misses := cache_misses s + 1\<rparr>"
      let ?s2 = "if \<not> is_valid_fingerprint_image ?img
                 then ?s1\<lparr>warnings := warnings ?s1 @
                        [''Image may not be suitable for fingerprint processing: '' @ ?key]\<rparr>
                 else ?s1"
      let ?s4 = "?s2\<lparr>current_cache_size := current_cache_size s + calculate_image_memory_size ?img,
                     image_cache := image_cache s @ [(?key, ?entry)]\<rparr>"
      from assms(2) have add: "unat (current_cache_size s + calculate_image_memory_size ?img) =
          unat (current_cache_size s) + unat (calculate_image_memory_size ?img)"
        by (simp add: unat_add_lem [symmetric])
      from None have "?key \<notin> fst ` set (image_cache s)"
        by (simp add: map_of_eq_None_iff)
      with assms(1) add have acc: "accounted ?s4"
        by (simp add: accounted_def)
      have total: "current_cache_size ?s4 = current_cache_size s + calculate_image_memory_size ?img"
        by simp
      have "snd (load_image env s path use_cache now) = cleanup_cache_if_needed ?s4"
        using True None e by (simp add: load_image_def Let_def update_absent)
      with cleanup_accounted [OF acc] add total show ?thesis
        by (simp add: word_le_nat_alt)
    qed
  qed
qed

lemma remove_from_cache_invariant:
  assumes "accounted s"
  shows "accounted (remove_from_cache env s path) \<and>
     (within_budget s \<longrightarrow> within_budget (remove_from_cache env s path))"
proof (cases "map_of (image_cache s) (normalize_path env path)")
  case None
  with assms show ?thesis
    by (simp add: remove_from_cache_def)
next
  case (Some entry)
  from delete_entry_accounted [OF assms Some] delete_entry_within_budget [OF assms Some] Some
  show ?thesis
    by (simp add: remove_from_cache_def)
qed

lemma load_images_loop_within_budget:
  "within_budget (snd (snd acc)) \<Longrightarrow>
   within_budget (snd (snd (load_images_loop env use_cache now paths acc)))"
proof (induction paths arbitrary: acc)
  case Nil
  then show ?case by simp
next
  case (Cons path rest)
  obtain images flags s where acc: "acc = (images, flags, s)"
    by (cases acc) auto
  with Cons.prems have "within_budget (snd (load_image env s path use_cache (now (length images))))"
    by (simp add: load_image_within_budget)
  with Cons.IH show ?case
    by (simp add: acc Let_def)
qed

lemma load_images_loop_accounted:
  "accounted (snd (snd acc)) \<Longrightarrow>
   unat (current_cache_size (snd (snd acc))) +
     (\<Sum>path\<leftarrow>paths. unat (calculate_image_memory_size (imread env (normalize_path env path)))) < 2 ^ 64 \<Longrightarrow>
   accounted (snd (snd (load_images_loop env use_cache now paths acc)))"
proof (induction paths arbitrary: acc)
  case Nil
  then show ?case by simp
next
  case (Cons path rest)
  obtain images flags s where acc: "acc = (images, flags, s)"
    by (cases acc) auto
  let ?s' = "snd (load_image env s path use_cache (now (length images)))"
  from Cons.prems have "accounted s"
    and "unat (current_cache_size s) +
         unat (calculate_image_memory_size (imread env (normalize_path env path))) < 2 ^ 64"
    by (simp_all add: acc)
  from load_image_accounted [OF this, of use_cache "now (length images)"]
  have a: "accounted ?s'"
    and b: "unat (current_cache_size ?s') \<le> unat (current_cache_size s) +
         unat (calculate_image_memory_size (imread env (normalize_path env path)))"
    by simp_all
  from b Cons.prems(2) have "unat (current_cache_size ?s') +
     (\<Sum>path\<leftarrow>rest. unat (calculate_image_memory_size (imread env (normalize_path env path)))) < 2 ^ 64"
    by (simp add: acc)
  with a Cons.IH [of "(images @ [fst (load_image env s path use_cache (now (length images)))],
      map_option (\<lambda>flags. flags @ [\<not> empty (fst (load_image env s path use_cache (now (length images))))]) flags,
      ?s')"]
  show ?case
    by (simp add: acc Let_def)
qed

lemma load_images_loop_results:
  "length (fst (load_images_loop env use_cache now paths acc)) = length (fst acc) + length paths"
proof (induction paths arbitrary: acc)
  case Nil
  then show ?case by simp
next
  case (Cons path rest)
  obtain images flags s where acc: "acc = (images, flags, s)"
    by (cases acc) auto
  from Cons.IH show ?case
    by (simp add: acc Let_def)
qed

lemma flat_image_not_valid: "\<not> is_valid_fingerprint_image (flat_image h w v)"
proof -
  have "snd (meanStdDev u8 (flat_image h w v)) = 0"
    by (rule meanStdDev_constant [where a = "u8 v"]) (simp add: flat_image_def)
  then show ?thesis
    by (simp add: is_valid_fingerprint_image_def)
qed

lemma load_first:
  "load_image two_files (set_cache_size_mb FileManager0 1) ''a.bmp'' True 1 =
     (small_image,
      \<lparr>image_cache = [(''a.bmp'', \<lparr>image = small_image, filepath = ''a.bmp'', memory_size = 6, last_accessed = 1\<rparr>)],
       max_cache_size_mb = 1, current_cache_size = 6, cache_hits = 0, cache_misses = 1,
       warnings = [''Image may not be suitable for fingerprint processing: a.bmp'']\<rparr>)"
proof -
  have "\<not> empty small_image" "\<not> is_valid_fingerprint_image small_image"
    "calculate_image_memory_size small_image = 6"
    by (simp_all add: empty_def small_image_def is_valid_fingerprint_image_def calculate_image_memory_size_def)
  then show ?thesis
    by (simp add: load_image_def two_files_def FileManager0_def set_cache_size_mb_def normalize_path_def
        Let_def cleanup_cache_if_needed.simps)
qed

lemma load_second:
  "load_image two_files
     \<lparr>image_cache = [(''a.bmp'', \<lparr>image = small_image, filepath = ''a.bmp'', memory_size = 6, last_accessed = 1\<rparr>)],
      max_cache_size_mb = 1, current_cache_size = 6, cache_hits = 0, cache_misses = 1,
      warnings = [''Image may not be suitable for fingerprint processing: a.bmp'']\<rparr>
     ''b.bmp'' True 2 =
     (flat_image 1024 1024 0,
      \<lparr>image_cache = [(''b.bmp'', \<lparr>image = flat_image 1024 1024 0, filepath = ''b.bmp'',
                                  memory_size = 1048576, last_accessed = 2\<rparr>)],
       max_cache_size_mb = 1, current_cache_size = 1048576, cache_hits = 0, cache_misses = 2,
       warnings = [''Image may not be suitable for fingerprint processing: a.bmp'',
                   ''Image may not be suitable for fingerprint processing: b.bmp'']\<rparr>)"
proof -
  have "\<not> empty (flat_image 1024 1024 0)"
    "calculate_image_memory_size (flat_image 1024 1024 0) = 1048576"
    by (simp_all add: empty_def flat_image_def calculate_image_memory_size_def)
  with flat_image_not_valid [of 1024 1024 0] show ?thesis
    by (simp add: load_image_def two_files_def normalize_path_def Let_def
        cleanup_cache_if_needed.simps remove_oldest_cache_entry_def oldest_entry_def)
qed

text \<open>
  After \<open>a.bmp\<close> (6 bytes) is loaded into the empty cache with the default budget, the
  cache is within its budget; \<open>set_cache_size_mb\<close> with 0 then leaves the entry in the
  cache and the running total at 6 bytes, above the new budget of 0 bytes.
\<close>

theorem shrinking_budget_counterexample:
  "within_budget (snd (load_image sample_storage FileManager0 ''a.bmp'' True 1))
   \<and> \<not> within_budget (set_cache_size_mb (snd (load_image sample_storage FileManager0 ''a.bmp'' True 1)) 0)"
  by (simp only: load_sample) (simp add: within_budget_def set_cache_size_mb_def)

text \<open>
  C7, amended. Every cache operation other than \<open>set_cache_size_mb\<close> leaves the running
  byte total within \<open>max_cache_size_mb * 1024 * 1024\<close> (in \<open>size_t\<close>) or the cache empty:
  the initial state is so; \<open>load_image\<close> and \<open>load_images_batch\<close> keep the property, and
  a \<open>load_image\<close> that inserts an entry establishes it, so that the budget is enforced
  again at the first insertion after a shrinking; \<open>clear_cache\<close> establishes it;
  \<open>remove_from_cache\<close> keeps it when the bookkeeping is exact; \<open>reset_cache_statistics\<close>
  does not touch it. The bookkeeping is exact in the initial state and stays exact under
  every operation, as long as the byte total and the size of a loaded image do not
  exceed the range of \<open>size_t\<close> together.
  The eviction loop is the repetition of \<open>remove_oldest_cache_entry\<close> while the byte
  total exceeds the budget and the cache is not empty; it ends within the budget or with
  an empty cache, and each round removes an entry whose last access is the oldest,
  exactly one entry, and subtracts its size.
  \<open>set_cache_size_mb\<close> only stores the new budget: it changes neither the entries nor the
  byte total, and nothing is evicted before the next insertion.
\<close>

theorem cache_budget_invariant:
  "within_budget FileManager0 \<and> accounted FileManager0
   \<and> (within_budget s \<or>
        (use_cache \<and> map_of (image_cache s) (normalize_path env path) = None \<and>
         \<not> empty (imread env (normalize_path env path)))
       \<longrightarrow> within_budget (snd (load_image env s path use_cache now)))
   \<and> (within_budget s \<longrightarrow>
         within_budget (snd (snd (load_images_batch env s filepaths use_cache success_flags clock))))
   \<and> within_budget (clear_cache s) \<and> accounted (clear_cache s)
   \<and> (accounted s \<and> within_budget s \<longrightarrow> within_budget (remove_from_cache env s path))
   \<and> (accounted s \<longrightarrow> accounted (remove_from_cache env s path))
   \<and> within_budget (reset_cache_statistics s) = within_budget s
   \<and> accounted (reset_cache_statistics s) = accounted s
   \<and> (accounted s \<and>
        unat (current_cache_size s) +
          unat (calculate_image_memory_size (imread env (normalize_path env path))) < 2 ^ 64
       \<longrightarrow> accounted (snd (load_image env s path use_cache now)))
   \<and> (accounted s \<and>
        unat (current_cache_size s) +
          (\<Sum>path\<leftarrow>filepaths. unat (calculate_image_memory_size (imread env (normalize_path env path)))) < 2 ^ 64
       \<longrightarrow> accounted (snd (snd (load_images_batch env s filepaths use_cache success_flags clock))))
   \<and> (distinct (map fst (image_cache s)) \<longrightarrow>
         distinct (map fst (image_cache (snd (load_image env s path use_cache now)))))
   \<and> within_budget (cleanup_cache_if_needed s)
   \<and> cleanup_cache_if_needed s =
       (if current_cache_size s > max_cache_size_mb s * 1024 * 1024 \<and> image_cache s \<noteq> []
        then cleanup_cache_if_needed (remove_oldest_cache_entry s) else s)
   \<and> (image_cache s \<noteq> [] \<longrightarrow>
         oldest_entry (image_cache s) \<in> set (image_cache s) \<and>
         (\<forall>e \<in> set (image_cache s).
             last_accessed (snd (oldest_entry (image_cache s))) \<le> last_accessed (snd e)) \<and>
         image_cache (remove_oldest_cache_entry s) =
           AList.delete (fst (oldest_entry (image_cache s))) (image_cache s) \<and>
         current_cache_size (remove_oldest_cache_entry s) =
           current_cache_size s - memory_size (snd (oldest_entry (image_cache s))) \<and>
         (distinct (map fst (image_cache s)) \<longrightarrow>
            length (image_cache (remove_oldest_cache_entry s)) + 1 = length (image_cache s)))
   \<and> (accounted s \<longrightarrow>
         accounted (remove_oldest_cache_entry s) \<and> accounted (cleanup_cache_if_needed s))
   \<and> image_cache (set_cache_size_mb s n) = image_cache s
   \<and> current_cache_size (set_cache_size_mb s n) = current_cache_size s
   \<and> accounted (set_cache_size_mb s n) = accounted s"
proof (intro conjI impI ballI)
  show "within_budget FileManager0" and "accounted FileManager0"
    by (simp_all add: within_budget_def accounted_def FileManager0_def)
next
  assume "within_budget s \<or>
        (use_cache \<and> map_of (image_cache s) (normalize_path env path) = None \<and>
         \<not> empty (imread env (normalize_path env path)))"
  then show "within_budget (snd (load_image env s path use_cache now))"
    by (rule load_image_within_budget)
next
  assume "within_budget s"
  then show "within_budget (snd (snd (load_images_batch env s filepaths use_cache success_flags clock)))"
    unfolding load_images_batch_def by (intro load_images_loop_within_budget) simp
next
  show "within_budget (clear_cache s)" and "accounted (clear_cache s)"
    by (simp_all add: within_budget_def accounted_def clear_cache_def)
next
  assume "accounted s \<and> within_budget s"
  with remove_from_cache_invariant [of s env path]
  show "within_budget (remove_from_cache env s path)"
    by simp
next
  assume "accounted s"
  with remove_from_cache_invariant [of s env path]
  show "accounted (remove_from_cache env s path)"
    by simp
next
  show "within_budget (reset_cache_statistics s) = within_budget s"
    and "accounted (reset_cache_statistics s) = accounted s"
    by (simp_all add: within_budget_def accounted_def reset_cache_statistics_def)
next
  assume "accounted s \<and>
        unat (current_cache_size s) +
          unat (calculate_image_memory_size (imread env (normalize_path env path))) < 2 ^ 64"
  with load_image_accounted [of s env path use_cache now]
  show "accounted (snd (load_image env s path use_cache now))"
    by simp
next
  assume "accounted s \<and>
        unat (current_cache_size s) +
          (\<Sum>path\<leftarrow>filepaths. unat (calculate_image_memory_size (imread env (normalize_path env path)))) < 2 ^ 64"
  then show "accounted (snd (snd (load_images_batch env s filepaths use_cache success_flags clock)))"
    unfolding load_images_batch_def by (intro load_images_loop_accounted) simp_all
next
  assume "distinct (map fst (image_cache s))"
  then show "distinct (map fst (image_cache (snd (load_image env s path use_cache now))))"
    by (rule load_image_distinct)
next
  show "within_budget (cleanup_cache_if_needed s)"
    by (rule cleanup_within_budget)
next
  show "cleanup_cache_if_needed s =
       (if current_cache_size s > max_cache_size_mb s * 1024 * 1024 \<and> image_cache s \<noteq> []
        then cleanup_cache_if_needed (remove_oldest_cache_entry s) else s)"
    by (subst cleanup_cache_if_needed.simps) (simp add: Let_def)
next
  assume ne: "image_cache s \<noteq> []"
  then show in_cache: "oldest_entry (image_cache s) \<in> set (image_cache s)"
    by (rule oldest_entry_in_cache)
  from ne show "image_cache (remove_oldest_cache_entry s) =
           AList.delete (fst (oldest_entry (image_cache s))) (image_cache s)"
    and "current_cache_size (remove_oldest_cache_entry s) =
           current_cache_size s - memory_size (snd (oldest_entry (image_cache s)))"
    by (simp_all add: remove_oldest_cache_entry_def Let_def)
  {
    fix e
    assume "e \<in> set (image_cache s)"
    then show "last_accessed (snd (oldest_entry (image_cache s))) \<le> last_accessed (snd e)"
      by (rule oldest_entry_minimal)
  }
  {
    assume "distinct (map fst (image_cache s))"
    from delete_one_entry [OF this in_cache] ne
    show "length (image_cache (remove_oldest_cache_entry s)) + 1 = length (image_cache s)"
      by (simp add: remove_oldest_cache_entry_def Let_def)
  }
next
  assume a: "accounted s"
  then show "accounted (remove_oldest_cache_entry s)"
    by (rule remove_oldest_accounted)
  from cleanup_accounted [OF a] show "accounted (cleanup_cache_if_needed s)"
    by simp
next
  show "image_cache (set_cache_size_mb s n) = image_cache s"
    and "current_cache_size (set_cache_size_mb s n) = current_cache_size s"
    and "accounted (set_cache_size_mb s n) = accounted s"
    by (simp_all add: set_cache_size_mb_def accounted_def)
qed

text \<open>
  An instance with an eviction: the budget is one mebibyte; \<open>a.bmp\<close> (6 bytes) is loaded
  at time 1 and \<open>b.bmp\<close> (1048576 bytes) at time 2. The total of 1048582 bytes exceeds
  the budget, the older entry \<open>a.bmp\<close> is removed, and \<open>b.bmp\<close> stays.
\<close>

theorem cache_budget_invariant_witness:
  "map fst (image_cache (snd (load_image two_files (set_cache_size_mb FileManager0 1) ''a.bmp'' True 1))) =
     [''a.bmp'']
   \<and> map fst (image_cache (snd (load_image two_files
        (snd (load_image two_files (set_cache_size_mb FileManager0 1) ''a.bmp'' True 1)) ''b.bmp'' True 2))) =
     [''b.bmp'']
   \<and> current_cache_size (snd (load_image two_files
        (snd (load_image two_files (set_cache_size_mb FileManager0 1) ''a.bmp'' True 1)) ''b.bmp'' True 2)) =
     1048576
   \<and> within_budget (snd (load_image two_files
        (snd (load_image two_files (set_cache_size_mb FileManager0 1) ''a.bmp'' True 1)) ''b.bmp'' True 2))
   \<and> accounted (snd (load_image two_files
        (snd (load_image two_files (set_cache_size_mb FileManager0 1) ''a.bmp'' True 1)) ''b.bmp'' True 2))"
proof -
  let ?s1 = "snd (load_image two_files (set_cache_size_mb FileManager0 1) ''a.bmp'' True 1)"
  have s1: "within_budget ?s1" "accounted ?s1"
    and size: "unat (current_cache_size ?s1) +
       unat (calculate_image_memory_size (imread two_files (normalize_path two_files ''b.bmp''))) < 2 ^ 64"
    by (simp_all only: load_first)
       (simp_all add: within_budget_def accounted_def two_files_def normalize_path_def
          calculate_image_memory_size_def flat_image_def)
  with cache_budget_invariant [of ?s1 True two_files "''b.bmp''" 2]
  have "within_budget (snd (load_image two_files ?s1 ''b.bmp'' True 2))"
    and "accounted (snd (load_image two_files ?s1 ''b.bmp'' True 2))"
    by simp_all
  moreover have "map fst (image_cache ?s1) = [''a.bmp'']"
    by (simp only: load_first) simp
  moreover have "map fst (image_cache (snd (load_image two_files ?s1 ''b.bmp'' True 2))) = [''b.bmp'']"
    and "current_cache_size (snd (load_image two_files ?s1 ''b.bmp'' True 2)) = 1048576"
    by (simp_all only: load_first snd_conv load_second) simp_all
  ultimately show ?thesis
    by simp
qed

section \<open>Properties of the usability check of the loader\<close>

lemma split_image_stddev:
  "snd (meanStdDev u8 (split_image 100 2002 1001 0 255)) = sqrt (65025 / 4)"
proof -
  have s1: "mat_sum u8 (split_image 100 2002 1001 0 255) = 25525500"
    by (simp add: mat_sum_split_image u8_def)
  have s2: "mat_sum (\<lambda>v. u8 v * u8 v) (split_image 100 2002 1001 0 255) = 6509002500"
    by (simp add: mat_sum_split_image u8_def)
  have d: "rows (split_image 100 2002 1001 0 255) = 100" "cols (split_image 100 2002 1001 0 255) = 2002"
    by (simp_all add: split_image_def)
  show ?thesis
    unfolding meanStdDev_def Let_def s1 s2 d by simp
qed

text \<open>
  An image of 100 rows and 2002 columns, half black and half white: it is not empty,
  has one channel, is at least 100 x 100 and has a standard deviation of 127.5, and
  the check refuses it, because it has more than 2000 columns.
\<close>

theorem wide_image_counterexample:
  "\<not> is_valid_fingerprint_image (split_image 100 2002 1001 0 255)
   \<and> \<not> empty (split_image 100 2002 1001 0 255)
   \<and> channels (split_image 100 2002 1001 0 255) = 1
   \<and> 100 \<le> rows (split_image 100 2002 1001 0 255)
   \<and> 100 \<le> cols (split_image 100 2002 1001 0 255)
   \<and> 10 < snd (meanStdDev u8 (split_image 100 2002 1001 0 255))"
proof -
  have "(10 :: real) < sqrt (65025 / 4)"
    by (rule real_less_rsqrt) simp
  then have "10 < snd (meanStdDev u8 (split_image 100 2002 1001 0 255))"
    by (simp only: split_image_stddev)
  moreover have "\<not> is_valid_fingerprint_image (split_image 100 2002 1001 0 255)"
    by (simp add: is_valid_fingerprint_image_def split_image_def)
  ultimately show ?thesis
    by (simp add: split_image_def empty_def)
qed

lemma load_image_decoded:
  assumes "use_cache \<longrightarrow> map_of (image_cache s) (normalize_path env path) = None"
    and "\<not> empty (imread env (normalize_path env path))"
  shows "fst (load_image env s path use_cache now) = imread env (normalize_path env path) \<and>
     warnings (snd (load_image env s path use_cache now)) =
       (if is_valid_fingerprint_image (imread env (normalize_path env path)) then warnings s
        else warnings s @ [''Image may not be suitable for fingerprint processing: '' @ normalize_path env path])"
  using assms by (cases use_cache) (simp_all add: load_image_def Let_def cleanup_warnings)

lemma load_image_hit:
  assumes "use_cache" and "map_of (image_cache s) (normalize_path env path) = Some entry"
  shows "fst (load_image env s path use_cache now) = image entry \<and>
     warnings (snd (load_image env s path use_cache now)) = warnings s"
  using assms by (simp add: load_image_def Let_def)

lemma load_image_undecoded:
  assumes "use_cache \<longrightarrow> map_of (image_cache s) (normalize_path env path) = None"
    and "empty (imread env (normalize_path env path))"
  shows "fst (load_image env s path use_cache now) = Mat0 \<and>
     warnings (snd (load_image env s path use_cache now)) = warnings s"
  using assms by (cases use_cache) (simp_all add: load_image_def Let_def)

text \<open>
  C8, amended. \<open>is_valid_fingerprint_image\<close> accepts an image if and only if it is not
  empty, has one channel, has between 100 and 2000 rows and between 100 and 2000
  columns, and has a standard deviation of intensity above 10. In \<open>load_image\<close>, with
  or without the cache, the check decides only whether a warning is logged: whenever
  a file is decoded, that is, on every call but a cache hit, the decoded image is
  returned, with one warning more exactly when the check refuses it. A cache hit returns
  the cached image unchecked, a file that cannot be decoded gives the empty image, and
  neither logs a warning. Without the cache the entries stay as they are.
\<close>

theorem usability_check_accepts:
  "(is_valid_fingerprint_image img \<longleftrightarrow>
      \<not> empty img \<and> channels img = 1 \<and> 100 \<le> rows img \<and> 100 \<le> cols img \<and>
      rows img \<le> 2000 \<and> cols img \<le> 2000 \<and> 10 < snd (meanStdDev u8 img))
   \<and> ((use_cache \<longrightarrow> map_of (image_cache s) (normalize_path env path) = None) \<and>
       \<not> empty (imread env (normalize_path env path)) \<longrightarrow>
        fst (load_image env s path use_cache now) = imread env (normalize_path env path) \<and>
        warnings (snd (load_image env s path use_cache now)) =
          (if is_valid_fingerprint_image (imread env (normalize_path env path)) then warnings s
           else warnings s @ [''Image may not be suitable for fingerprint processing: '' @ normalize_path env path]))
   \<and> (use_cache \<and> map_of (image_cache s) (normalize_path env path) = Some entry \<longrightarrow>
        fst (load_image env s path use_cache now) = image entry \<and>
        warnings (snd (load_image env s path use_cache now)) = warnings s)
   \<and> ((use_cache \<longrightarrow> map_of (image_cache s) (normalize_path env path) = None) \<and>
       empty (imread env (normalize_path env path)) \<longrightarrow>
        fst (load_image env s path use_cache now) = Mat0 \<and>
        warnings (snd (load_image env s path use_cache now)) = warnings s)
   \<and> image_cache (snd (load_image env s path False now)) = image_cache s"
proof (intro conjI)
  show "is_valid_fingerprint_image img \<longleftrightarrow>
      \<not> empty img \<and> channels img = 1 \<and> 100 \<le> rows img \<and> 100 \<le> cols img \<and>
      rows img \<le> 2000 \<and> cols img \<le> 2000 \<and> 10 < snd (meanStdDev u8 img)"
    by (auto simp: is_valid_fingerprint_image_def)
next
  show "(use_cache \<longrightarrow> map_of (image_cache s) (normalize_path env path) = None) \<and>
       \<not> empty (imread env (normalize_path env path)) \<longrightarrow>
        fst (load_image env s path use_cache now) = imread env (normalize_path env path) \<and>
        warnings (snd (load_image env s path use_cache now)) =
          (if is_valid_fingerprint_image (imread env (normalize_path env path)) then warnings s
           else warnings s @ [''Image may not be suitable for fingerprint processing: '' @ normalize_path env path])"
    using load_image_decoded [of use_cache s env path now] by blast
next
  show "use_cache \<and> map_of (image_cache s) (normalize_path env path) = Some entry \<longrightarrow>
        fst (load_image env s path use_cache now) = image entry \<and>
        warnings (snd (load_image env s path use_cache now)) = warnings s"
    using load_image_hit [of use_cache s env path entry now] by blast
next
  show "(use_cache \<longrightarrow> map_of (image_cache s) (normalize_path env path) = None) \<and>
       empty (imread env (normalize_path env path)) \<longrightarrow>
        fst (load_image env s path use_cache now) = Mat0 \<and>
        warnings (snd (load_image env s path use_cache now)) = warnings s"
    using load_image_undecoded [of use_cache s env path now] by blast
next
  show "image_cache (snd (load_image env s path False now)) = image_cache s"
    by (simp add: load_image_def Let_def)
qed

text \<open>
  An instance on the cached path: the 3 x 2 image is refused by the check, and the first
  load of \<open>a.bmp\<close> with the cache still returns it and logs the warning.
\<close>

theorem usability_check_accepts_witness:
  "\<not> is_valid_fingerprint_image small_image
   \<and> fst (load_image sample_storage FileManager0 ''a.bmp'' True 1) = small_image
   \<and> warnings (snd (load_image sample_storage FileManager0 ''a.bmp'' True 1)) =
       [''Image may not be suitable for fingerprint processing: a.bmp'']"
proof -
  have "map_of (image_cache FileManager0) (normalize_path sample_storage ''a.bmp'') = None"
    and "\<not> empty (imread sample_storage (normalize_path sample_storage ''a.bmp''))"
    and "imread sample_storage (normalize_path sample_storage ''a.bmp'') = small_image"
    and "normalize_path sample_storage ''a.bmp'' = ''a.bmp''"
    and "rows small_image = 3"
    and "warnings FileManager0 = []"
    by (simp_all add: FileManager0_def sample_storage_def normalize_path_def empty_def small_image_def)
  with usability_check_accepts [of small_image True FileManager0 sample_storage "''a.bmp''" 1]
  show ?thesis
    by simp
qed

end
